theory Spec2Isabelle
  imports Complex_Main "HOL-Library.AList"
begin

section \<open>The vehicle streamer: data model\<close>

text \<open>
  A shallow embedding of \<^verbatim>\<open>VehicleStreamer\<close> (the class that binds the entity streamer to
  vehicles). JavaScript objects are compared by identity, so every object is a handle
  (a natural number) into a store kept in the \<open>world\<close> record; a \<^verbatim>\<open>Symbol()\<close> is a
  handle drawn from a counter that only grows, so that two symbols are never equal.
  A JavaScript \<^verbatim>\<open>Map\<close> iterates in insertion order: it is an association list,
  \<^verbatim>\<open>get\<close> is \<open>map_of\<close>, \<^verbatim>\<open>set\<close> is \<open>AList.update\<close> (replace in place, or append) and
  \<^verbatim>\<open>delete\<close> is \<open>AList.delete\<close>.
\<close>

type_synonym sref = nat
type_synonym vref = nat
type_synonym symbol = nat
type_synonym hook = nat
type_synonym player = nat

datatype error = Error string

datatype pinType = RecentUsagePin | FeaturePin nat

text \<open>
  Modelled from the spec: the \<^verbatim>\<open>Vector\<close> class is not among the sources. Section 4.1 of the
  specification measures Euclidean distance in world units; \<^verbatim>\<open>closeTo\<close> holds when that
  distance does not exceed the given threshold. Coordinates are real numbers (rounding of
  doubles is not modelled).
\<close>

datatype vector = Vector real real real

fun squaredDistanceTo :: "vector \<Rightarrow> vector \<Rightarrow> real" where
  "squaredDistanceTo (Vector x1 y1 z1) (Vector x2 y2 z2) =
     (x1 - x2) * (x1 - x2) + (y1 - y2) * (y1 - y2) + (z1 - z2) * (z1 - z2)"

definition distanceTo :: "vector \<Rightarrow> vector \<Rightarrow> real" where
  "distanceTo a b = sqrt (squaredDistanceTo a b)"

definition closeTo :: "vector \<Rightarrow> vector \<Rightarrow> real \<Rightarrow> bool" where
  "closeTo a b maxDistance = (distanceTo a b \<le> maxDistance)"

text \<open>
  A \<^verbatim>\<open>StoredVehicle\<close>: the fields the streamer reads. The appearance attributes
  (colours, paintjob, number plate, siren, rotation) are only handed to the engine when the
  vehicle is created and never read again; they travel with the descriptor handle in the
  \<open>EngineCreateVehicle\<close> effect. The hooks are optional callbacks: a death or respawn hook
  is an opaque handle whose invocation is recorded, the access hook is a predicate on
  players.
\<close>

record storedVehicle =
  modelId :: int
  position :: vector
  interiorId :: int
  virtualWorld :: int
  respawnDelay :: int
  deathFn :: "hook option"
  respawnFn :: "hook option"
  accessFn :: "(player \<Rightarrow> bool) option"

text \<open>
  Modelled from the spec: the \<^verbatim>\<open>Vehicle\<close> entity class is not among the sources. Section 3
  gives a live entity its transient position, an occupancy count and a connected flag; the
  streamer further reads its world, interior and attached trailer. \<^verbatim>\<open>isOccupied()\<close> holds
  when the occupancy count is positive, \<^verbatim>\<open>isConnected()\<close> reads the connected flag.
\<close>

record vehicle =
  vehPosition :: vector
  vehInteriorId :: int
  vehVirtualWorld :: int
  occupantCount :: nat
  connected :: bool
  trailer :: "vref option"

definition isOccupied :: "vehicle \<Rightarrow> bool" where
  "isOccupied v = (occupantCount v > 0)"

text \<open>
  What the streamer does to the outside: calls into the engine and into the hooks of a
  descriptor, in the order they happen. A hook is assumed not to call back into the streamer.
\<close>

datatype effect =
    EngineCreateVehicle vref sref
  | CallDeathFn hook vref sref
  | CallRespawnFn hook vref sref
  | VehicleRespawn vref
  | VehicleDispose vref
  | EntitiesDispose
  | LockForPlayer vref player
  | UnlockForPlayer vref player

text \<open>
  The streamer's own fields \<^verbatim>\<open>this.vehicles_\<close>, \<^verbatim>\<open>this.storedVehicles_\<close>,
  \<^verbatim>\<open>this.respawnTokens_\<close> and \<^verbatim>\<open>this.disposed_\<close> are \<open>this_vehicles\<close>,
  \<open>this_storedVehicles\<close>, \<open>this_respawnTokens\<close> and \<open>this_disposed\<close> (a name may not
  end in an underscore). \<open>this_pinned\<close>, \<open>registered\<close> and \<open>streamingDistance\<close>
  belong to the base class; \<open>storedObjs\<close>, \<open>vehicleObjs\<close> and \<open>players\<close> are the objects
  the streamer reads; \<open>nextVehicle\<close> and \<open>nextSymbol\<close> are the allocation counters;
  \<open>timers\<close> lists every \<^verbatim>\<open>await seconds(respawnTime)\<close> started by
  \<^verbatim>\<open>scheduleVehicleForRespawn\<close>, with the vehicle and the token its continuation captured;
  \<open>effects\<close> is the log of outside calls.
\<close>

record world =
  this_disposed :: bool
  this_vehicles :: "(sref \<times> vref) list"
  this_storedVehicles :: "(vref \<times> sref) list"
  this_respawnTokens :: "(vref \<times> symbol) list"
  this_pinned :: "(sref \<times> pinType) set"
  registered :: "sref list"
  streamingDistance :: real
  storedObjs :: "sref \<Rightarrow> storedVehicle"
  vehicleObjs :: "vref \<Rightarrow> vehicle"
  players :: "player list"
  nextVehicle :: vref
  nextSymbol :: symbol
  timers :: "(real \<times> vref \<times> symbol) list"
  effects :: "effect list"

definition UnoccupiedVehicleStatusUpdateSec :: real where
  "UnoccupiedVehicleStatusUpdateSec = 45"

definition UnoccupiedRespawnThreshold :: real where
  "UnoccupiedRespawnThreshold = 3 / 2"

definition MAX_SAFE_INTEGER :: real where
  "MAX_SAFE_INTEGER = 9007199254740991"

section \<open>Operations of the base class and of the engine\<close>

text \<open>
  Modelled from the spec: \<^verbatim>\<open>EntityStreamerGlobal\<close> is not among the sources. Section 3: a pin
  is a (descriptor, tag) pair, pins are additive by tag, and removing one tag's pin does not
  remove the others.
\<close>

definition pin :: "world \<Rightarrow> sref \<Rightarrow> pinType \<Rightarrow> world" where
  "pin s storedVehicle type = s\<lparr>this_pinned := insert (storedVehicle, type) (this_pinned s)\<rparr>"

definition unpin :: "world \<Rightarrow> sref \<Rightarrow> pinType \<Rightarrow> world" where
  "unpin s storedVehicle type = s\<lparr>this_pinned := this_pinned s - {(storedVehicle, type)}\<rparr>"

text \<open>
  Modelled from the spec: the base class's \<^verbatim>\<open>query\<close> is not among the sources. Section 4.1:
  all registered descriptors within the streaming radius (Euclidean distance) of the
  position.
\<close>

definition super_query :: "world \<Rightarrow> vector \<Rightarrow> sref list" where
  "super_query s pos =
     filter (\<lambda>sv. distanceTo (position (storedObjs s sv)) pos \<le> streamingDistance s)
       (remdups (registered s))"

definition emit :: "effect \<Rightarrow> world \<Rightarrow> world" where
  "emit e s = s\<lparr>effects := effects s @ [e]\<rparr>"

text \<open>
  Modelled from the spec: \<^verbatim>\<open>ScopedEntities.createVehicle\<close> and the methods of \<^verbatim>\<open>Vehicle\<close>
  are not among the sources. Section 6: creating a live object is an atomic primitive that
  yields a new identity; the new vehicle stands where its descriptor says, empty and
  connected. \<^verbatim>\<open>dispose\<close> disconnects the vehicle; \<^verbatim>\<open>respawn\<close> is a request to the engine.
\<close>

definition createVehicle :: "world \<Rightarrow> sref \<Rightarrow> vref \<times> world" where
  "createVehicle s storedVehicle =
     (let v = nextVehicle s; d = storedObjs s storedVehicle in
      (v, emit (EngineCreateVehicle v storedVehicle)
            (s\<lparr>nextVehicle := Suc v,
               vehicleObjs := (vehicleObjs s)
                 (v := \<lparr>vehPosition = position d, vehInteriorId = interiorId d,
                        vehVirtualWorld = virtualWorld d, occupantCount = 0,
                        connected = True, trailer = None\<rparr>)\<rparr>)))"

definition vehicle_dispose :: "world \<Rightarrow> vref \<Rightarrow> world" where
  "vehicle_dispose s v =
     emit (VehicleDispose v)
       (s\<lparr>vehicleObjs := (vehicleObjs s)(v := (vehicleObjs s v)\<lparr>connected := False\<rparr>)\<rparr>)"

definition vehicle_respawn :: "world \<Rightarrow> vref \<Rightarrow> world" where
  "vehicle_respawn s v = emit (VehicleRespawn v) s"

section \<open>The vehicle streamer\<close>

definition hasAccess :: "world \<Rightarrow> sref \<Rightarrow> player \<Rightarrow> bool" where
  "hasAccess s storedVehicle p =
     (case accessFn (storedObjs s storedVehicle) of None \<Rightarrow> True | Some f \<Rightarrow> f p)"

definition synchronizeAccess :: "sref \<Rightarrow> vref \<Rightarrow> player \<Rightarrow> world \<Rightarrow> world" where
  "synchronizeAccess storedVehicle v p s =
     (if \<not> hasAccess s storedVehicle p then emit (LockForPlayer v p) s
      else emit (UnlockForPlayer v p) s)"

definition synchronizeAccessForVehicle :: "world \<Rightarrow> sref \<Rightarrow> world" where
  "synchronizeAccessForVehicle s storedVehicle =
     (case map_of (this_vehicles s) storedVehicle of
        None \<Rightarrow> s
      | Some v \<Rightarrow> fold (synchronizeAccess storedVehicle v) (players s) s)"

definition synchronizeAccessForPlayer :: "world \<Rightarrow> player \<Rightarrow> world" where
  "synchronizeAccessForPlayer s p =
     fold (\<lambda>(storedVehicle, v). synchronizeAccess storedVehicle v p) (this_vehicles s) s"

text \<open>
  \<^verbatim>\<open>createEntity\<close> and \<^verbatim>\<open>deleteEntity\<close> return the outcome (\<open>Inl\<close> when the call throws)
  together with the world as the call leaves it: an exception rolls nothing back.
\<close>

definition createEntity :: "world \<Rightarrow> sref \<Rightarrow> (error + vref) \<times> world" where
  "createEntity s storedVehicle =
     (if map_of (this_vehicles s) storedVehicle \<noteq> None
      then (Inl (Error ''Attempting to create a vehicle that already exists.''), s)
      else
        (let (v, s1) = createVehicle s storedVehicle;
             s2 = s1\<lparr>this_vehicles := AList.update storedVehicle v (this_vehicles s1)\<rparr>;
             s3 = s2\<lparr>this_storedVehicles := AList.update v storedVehicle (this_storedVehicles s2)\<rparr>;
             s4 = synchronizeAccessForVehicle s3 storedVehicle
         in (Inr v, s4)))"

definition callDeathFn :: "world \<Rightarrow> vref \<Rightarrow> sref \<Rightarrow> world" where
  "callDeathFn s v storedVehicle =
     (case deathFn (storedObjs s storedVehicle) of
        None \<Rightarrow> s
      | Some h \<Rightarrow> emit (CallDeathFn h v storedVehicle) s)"

definition deleteEntity :: "world \<Rightarrow> sref \<Rightarrow> (error + unit) \<times> world" where
  "deleteEntity s storedVehicle =
     (case map_of (this_vehicles s) storedVehicle of
        None \<Rightarrow> (Inl (Error ''Attempting to delete an invalid vehicle.''), s)
      | Some v \<Rightarrow>
          (let s1 = s\<lparr>this_vehicles := AList.delete storedVehicle (this_vehicles s)\<rparr>;
               s2 = s1\<lparr>this_storedVehicles := AList.delete v (this_storedVehicles s1)\<rparr>;
               s3 = callDeathFn s2 v storedVehicle;
               s4 = (if connected (vehicleObjs s3 v) then vehicle_dispose s3 v else s3)
           in (Inr (), s4)))"

text \<open>
  \<^verbatim>\<open>scheduleVehicleForRespawn\<close> is an async function. \<open>scheduleVehicleForRespawn\<close> is what
  runs at the call, up to \<^verbatim>\<open>await seconds(respawnTime)\<close>; the timer it starts is appended
  to \<open>timers\<close>. \<open>scheduleVehicleForRespawn_resumed\<close> is the continuation, run on the world
  as it is when the timer fires, with the vehicle and token captured at the call.
\<close>

definition scheduleVehicleForRespawn :: "world \<Rightarrow> vref \<Rightarrow> sref \<Rightarrow> real \<Rightarrow> world" where
  "scheduleVehicleForRespawn s v storedVehicle timeMultipler =
     (let respawnTime = real_of_int (respawnDelay (storedObjs s storedVehicle)) * timeMultipler in
      if respawnTime < 0 then unpin s storedVehicle RecentUsagePin
      else
        (let token = nextSymbol s in
         s\<lparr>nextSymbol := Suc token,
           this_respawnTokens := AList.update v token (this_respawnTokens s),
           timers := timers s @ [(respawnTime, v, token)]\<rparr>))"

definition respawnLink :: "world \<Rightarrow> vref \<Rightarrow> world" where
  "respawnLink s v =
     (let s1 = (case map_of (this_storedVehicles s) v of
                  None \<Rightarrow> s
                | Some storedVehicle \<Rightarrow>
                    (let s' = unpin s storedVehicle RecentUsagePin;
                         s'' = s'\<lparr>this_respawnTokens := AList.delete v (this_respawnTokens s')\<rparr>
                     in callDeathFn s'' v storedVehicle))
      in if connected (vehicleObjs s1 v) then vehicle_respawn s1 v else s1)"

text \<open>
  The loop \<^verbatim>\<open>while (vehicle) { ... vehicle = trailer }\<close> follows trailer references and
  need not end when they form a cycle: it runs on fuel, and \<open>None\<close> is the loop still
  running when the fuel is spent.
\<close>

fun respawnChain :: "nat \<Rightarrow> world \<Rightarrow> vref option \<Rightarrow> world option" where
  "respawnChain fuel s None = Some s"
| "respawnChain 0 s (Some v) = None"
| "respawnChain (Suc fuel) s (Some v) =
     (let next = trailer (vehicleObjs s v) in respawnChain fuel (respawnLink s v) next)"

definition scheduleVehicleForRespawn_resumed ::
    "nat \<Rightarrow> world \<Rightarrow> vref \<Rightarrow> symbol \<Rightarrow> world option" where
  "scheduleVehicleForRespawn_resumed fuel s v token =
     (if \<not> connected (vehicleObjs s v) \<or> map_of (this_respawnTokens s) v \<noteq> Some token
      then Some s
      else respawnChain fuel s (Some v))"

text \<open>One pass of the body of \<^verbatim>\<open>for (const [storedVehicle, vehicle] of this.vehicles_)\<close>.\<close>

definition processUnoccupiedVehicle :: "sref \<times> vref \<Rightarrow> world \<Rightarrow> world" where
  "processUnoccupiedVehicle entry s =
     (let storedVehicle = fst entry; v = snd entry in
      if isOccupied (vehicleObjs s v) then s
      else if map_of (this_respawnTokens s) v \<noteq> None then s
      else if closeTo (vehPosition (vehicleObjs s v)) (position (storedObjs s storedVehicle))
                UnoccupiedRespawnThreshold
              \<and> vehVirtualWorld (vehicleObjs s v) = virtualWorld (storedObjs s storedVehicle)
              \<and> vehInteriorId (vehicleObjs s v) = interiorId (storedObjs s storedVehicle)
           then s
      else scheduleVehicleForRespawn s v storedVehicle (1 / 2))"

text \<open>
  One turn of \<^verbatim>\<open>while (!this.disposed_) { ...; await seconds(...) }\<close>: the sweep over the
  live vehicles and the delay awaited before the next turn, or \<open>None\<close> when the loop
  has ended.
\<close>

definition processUnoccupiedVehicleUpdates :: "world \<Rightarrow> real option \<times> world" where
  "processUnoccupiedVehicleUpdates s =
     (if this_disposed s then (None, s)
      else (Some UnoccupiedVehicleStatusUpdateSec, fold processUnoccupiedVehicle (this_vehicles s) s))"

definition respawnUnoccupiedVehicle :: "sref \<times> vref \<Rightarrow> world \<Rightarrow> world" where
  "respawnUnoccupiedVehicle entry s =
     (let storedVehicle = fst entry; v = snd entry in
      if occupantCount (vehicleObjs s v) > 0 then s
      else
        (let s1 = s\<lparr>this_respawnTokens := AList.delete v (this_respawnTokens s)\<rparr>;
             s2 = callDeathFn s1 v storedVehicle
         in if connected (vehicleObjs s2 v) then vehicle_respawn s2 v else s2))"

definition respawnUnoccupiedVehicles :: "world \<Rightarrow> world" where
  "respawnUnoccupiedVehicles s = fold respawnUnoccupiedVehicle (this_vehicles s) s"

definition onPlayerEnterVehicle :: "world \<Rightarrow> vref \<Rightarrow> world" where
  "onPlayerEnterVehicle s v =
     (case map_of (this_storedVehicles s) v of
        None \<Rightarrow> s
      | Some storedVehicle \<Rightarrow>
          (let s1 = pin s storedVehicle RecentUsagePin
           in s1\<lparr>this_respawnTokens := AList.delete v (this_respawnTokens s1)\<rparr>))"

definition onPlayerLeaveVehicle :: "world \<Rightarrow> vref \<Rightarrow> world" where
  "onPlayerLeaveVehicle s v =
     (case map_of (this_storedVehicles s) v of
        None \<Rightarrow> s
      | Some storedVehicle \<Rightarrow>
          if occupantCount (vehicleObjs s v) > 1 then s
          else scheduleVehicleForRespawn s v storedVehicle 1)"

definition onTrailerDetached :: "world \<Rightarrow> vref \<Rightarrow> vref \<Rightarrow> world" where
  "onTrailerDetached s v trailerVehicle = onPlayerLeaveVehicle s trailerVehicle"

definition onVehicleSpawn :: "world \<Rightarrow> vref \<Rightarrow> world" where
  "onVehicleSpawn s v =
     (case map_of (this_storedVehicles s) v of
        None \<Rightarrow> s
      | Some storedVehicle \<Rightarrow>
          (let d = storedObjs s storedVehicle;
               s1 = s\<lparr>vehicleObjs := (vehicleObjs s)
                      (v := (vehicleObjs s v)\<lparr>vehInteriorId := interiorId d,
                                               vehVirtualWorld := virtualWorld d\<rparr>)\<rparr>
           in case respawnFn d of
                None \<Rightarrow> s1
              | Some h \<Rightarrow> emit (CallRespawnFn h v storedVehicle) s1))"

definition onVehicleDeath :: "world \<Rightarrow> vref \<Rightarrow> world" where
  "onVehicleDeath s v =
     (case map_of (this_storedVehicles s) v of
        None \<Rightarrow> s
      | Some storedVehicle \<Rightarrow>
          if occupantCount (vehicleObjs s v) > 0 then s
          else scheduleVehicleForRespawn s v storedVehicle (1 / 2))"

text \<open>
  \<^verbatim>\<open>dispose\<close>: the observers are removed and the three maps cleared;
  \<^verbatim>\<open>this.entities_.dispose()\<close> is recorded as one outside call (the vehicles it
  disconnects change in a step of the world outside).
\<close>

definition dispose :: "world \<Rightarrow> world" where
  "dispose s =
     emit EntitiesDispose
       (s\<lparr>this_disposed := True, this_respawnTokens := [], this_vehicles := [], this_storedVehicles := []\<rparr>)"

record queryResult =
  vehicles :: nat
  models :: nat
  closestVehicle :: "vref option"

definition closer :: "world \<Rightarrow> vector \<Rightarrow> vref \<Rightarrow> vref option \<times> real \<Rightarrow> vref option \<times> real" where
  "closer s pos v acc =
     (let squaredDistance = distanceTo (vehPosition (vehicleObjs s v)) pos in
      if squaredDistance > snd acc then acc else (Some v, squaredDistance))"

definition query :: "world \<Rightarrow> vector \<Rightarrow> queryResult" where
  "query s pos =
     (let storedVehicles = super_query s pos;
          modelSet = fold (\<lambda>sv ms. List.insert (modelId (storedObjs s sv)) ms) storedVehicles [];
          closest = fold (closer s pos) (map snd (this_vehicles s)) (None, MAX_SAFE_INTEGER)
      in \<lparr>vehicles = length storedVehicles, models = length modelSet,
          closestVehicle = fst closest\<rparr>)"

section \<open>Runs of the streamer\<close>

text \<open>
  The streamer as its constructor leaves it: not disposed, the three maps empty. (The first
  turn of the sweep started by the constructor finds no vehicle.)
\<close>

definition constructed :: "world \<Rightarrow> bool" where
  "constructed s =
     (\<not> this_disposed s \<and> this_vehicles s = [] \<and> this_storedVehicles s = []
      \<and> this_respawnTokens s = [])"

datatype lifecycleOp = CreateEntity sref | DeleteEntity sref

fun applyOp :: "world \<Rightarrow> lifecycleOp \<Rightarrow> world" where
  "applyOp s (CreateEntity storedVehicle) = snd (createEntity s storedVehicle)"
| "applyOp s (DeleteEntity storedVehicle) = snd (deleteEntity s storedVehicle)"

definition applyOps :: "world \<Rightarrow> lifecycleOp list \<Rightarrow> world" where
  "applyOps s ops = foldl applyOp s ops"

text \<open>
  Everything that can happen between two moments of a run: a method of the streamer is
  called, an observer callback is delivered, a suspended continuation resumes, or the
  world outside changes (vehicles move, fill, empty, disconnect, get trailers; descriptors
  and players change; other code creates vehicles). \<^verbatim>\<open>onTrailerAttached\<close> does nothing or
  delivers \<open>onPlayerEnterVehicle\<close> for the trailer, so it adds no step of its own.
\<close>

inductive transition :: "world \<Rightarrow> world \<Rightarrow> bool" where
  t_createEntity: "transition s (snd (createEntity s storedVehicle))"
| t_deleteEntity: "transition s (snd (deleteEntity s storedVehicle))"
| t_pin: "transition s (pin s storedVehicle type)"
| t_unpin: "transition s (unpin s storedVehicle type)"
| t_synchronizeAccessForVehicle: "transition s (synchronizeAccessForVehicle s storedVehicle)"
| t_synchronizeAccessForPlayer: "transition s (synchronizeAccessForPlayer s p)"
| t_scheduleVehicleForRespawn:
    "transition s (scheduleVehicleForRespawn s v storedVehicle timeMultipler)"
| t_resumed:
    "scheduleVehicleForRespawn_resumed fuel s v token = Some s' \<Longrightarrow> transition s s'"
| t_processUnoccupiedVehicleUpdates: "transition s (snd (processUnoccupiedVehicleUpdates s))"
| t_respawnUnoccupiedVehicles: "transition s (respawnUnoccupiedVehicles s)"
| t_onPlayerEnterVehicle: "transition s (onPlayerEnterVehicle s v)"
| t_onPlayerLeaveVehicle: "transition s (onPlayerLeaveVehicle s v)"
| t_onTrailerDetached: "transition s (onTrailerDetached s v trailerVehicle)"
| t_onVehicleSpawn: "transition s (onVehicleSpawn s v)"
| t_onVehicleDeath: "transition s (onVehicleDeath s v)"
| t_dispose: "transition s (dispose s)"
| t_outside:
    "nextVehicle s \<le> n \<Longrightarrow>
     transition s (s\<lparr>storedObjs := so, vehicleObjs := vo, players := ps, registered := rs,
                      nextVehicle := n\<rparr>)"

definition reachable :: "world \<Rightarrow> bool" where
  "reachable s = (\<exists>s0. constructed s0 \<and> rtranclp transition s0 s)"

section \<open>Invariants and observations\<close>

definition mutualInverses :: "world \<Rightarrow> bool" where
  "mutualInverses s =
     (\<forall>sv v. map_of (this_vehicles s) sv = Some v \<longleftrightarrow> map_of (this_storedVehicles s) v = Some sv)"

text \<open>
  The bookkeeping invariant: each map holds one entry per key, the two maps are mutual
  inverses, and every live vehicle was allocated before \<open>nextVehicle\<close>.
\<close>

definition liveMapsOk :: "world \<Rightarrow> bool" where
  "liveMapsOk s =
     (distinct (map fst (this_vehicles s)) \<and> distinct (map fst (this_storedVehicles s))
      \<and> mutualInverses s
      \<and> (\<forall>v \<in> fst ` set (this_storedVehicles s). v < nextVehicle s))"

text \<open>Two moments between which the live maps, or the objects read, did not change.\<close>

definition sameLiveMaps :: "world \<Rightarrow> world \<Rightarrow> bool" where
  "sameLiveMaps s s' =
     (this_vehicles s' = this_vehicles s \<and> this_storedVehicles s' = this_storedVehicles s
      \<and> nextVehicle s' = nextVehicle s)"

definition sameObjects :: "world \<Rightarrow> world \<Rightarrow> bool" where
  "sameObjects s s' = (storedObjs s' = storedObjs s \<and> vehicleObjs s' = vehicleObjs s)"

text \<open>
  How the token table may change from one moment to a later one: a vehicle's token is
  the one it had, or a symbol created in between.
\<close>

definition tokenStep :: "world \<Rightarrow> world \<Rightarrow> bool" where
  "tokenStep s s' =
     (nextSymbol s \<le> nextSymbol s'
      \<and> (\<forall>v t. map_of (this_respawnTokens s') v = Some t \<longrightarrow>
             map_of (this_respawnTokens s) v = Some t
             \<or> (nextSymbol s \<le> t \<and> t < nextSymbol s')))"

text \<open>The timers started for one vehicle, oldest first.\<close>

definition timersOf :: "vref \<Rightarrow> world \<Rightarrow> (real \<times> vref \<times> symbol) list" where
  "timersOf v s = filter (\<lambda>entry. fst (snd entry) = v) (timers s)"

text \<open>
  A respawn of \<open>v\<close> was scheduled between \<open>s\<close> and \<open>s'\<close>, to fire after \<open>delay\<close>
  seconds: \<open>v\<close> holds a token created since \<open>s\<close>, and one timer was started for \<open>v\<close>
  since \<open>s\<close>, with that delay and that token.
\<close>

definition respawnScheduled :: "world \<Rightarrow> world \<Rightarrow> vref \<Rightarrow> real \<Rightarrow> bool" where
  "respawnScheduled s s' v delay =
     (case map_of (this_respawnTokens s') v of
        None \<Rightarrow> False
      | Some token \<Rightarrow>
          nextSymbol s \<le> token \<and> token < nextSymbol s'
          \<and> timersOf v s' = timersOf v s @ [(delay, v, token)])"

text \<open>
  The chain of a vehicle: the vehicle, its trailer, that trailer's trailer, and so on, up to
  a link that tows nothing.
\<close>

fun isChain :: "(vref \<Rightarrow> vehicle) \<Rightarrow> vref option \<Rightarrow> vref list \<Rightarrow> bool" where
  "isChain vo None links = (links = [])"
| "isChain vo (Some v) [] = False"
| "isChain vo (Some v) (w # links) = (v = w \<and> isChain vo (trailer (vo v)) links)"

text \<open>
  What one link of a cascade shows to the outside: the death hook of its descriptor, when
  it has a descriptor and the descriptor a hook, then the respawn of the link when it is
  connected.
\<close>

definition linkEffects :: "world \<Rightarrow> vref \<Rightarrow> effect list" where
  "linkEffects s v =
     (case map_of (this_storedVehicles s) v of
        None \<Rightarrow> []
      | Some sv \<Rightarrow> (case deathFn (storedObjs s sv) of
                       None \<Rightarrow> []
                     | Some h \<Rightarrow> [CallDeathFn h v sv]))
     @ (if connected (vehicleObjs s v) then [VehicleRespawn v] else [])"

text \<open>
  What a forced respawn shows to the outside for one entry of the live map: nothing for an
  occupied vehicle; otherwise the death hook, when there is one, then the respawn when the
  vehicle is connected.
\<close>

definition forcedRespawnEffects :: "world \<Rightarrow> sref \<times> vref \<Rightarrow> effect list" where
  "forcedRespawnEffects s entry =
     (if occupantCount (vehicleObjs s (snd entry)) > 0 then []
      else (case deathFn (storedObjs s (fst entry)) of
              None \<Rightarrow> []
            | Some h \<Rightarrow> [CallDeathFn h (snd entry) (fst entry)])
           @ (if connected (vehicleObjs s (snd entry)) then [VehicleRespawn (snd entry)] else []))"

text \<open>
  The condition of the drift sweep in the words of the specification: the vehicle is
  unoccupied, has no respawn token, and stands more than the threshold away from its
  descriptor's position or in another virtual world or interior.
\<close>

definition drifted :: "world \<Rightarrow> sref \<Rightarrow> vref \<Rightarrow> bool" where
  "drifted s sv v =
     (occupantCount (vehicleObjs s v) = 0
      \<and> map_of (this_respawnTokens s) v = None
      \<and> (distanceTo (vehPosition (vehicleObjs s v)) (position (storedObjs s sv)) > 3 / 2
         \<or> vehVirtualWorld (vehicleObjs s v) \<noteq> virtualWorld (storedObjs s sv)
         \<or> vehInteriorId (vehicleObjs s v) \<noteq> interiorId (storedObjs s sv)))"

section \<open>Example worlds\<close>

text \<open>
  Three descriptors with a death hook and a respawn delay of 30 seconds, except descriptor 1
  whose delay is the sentinel \<open>-1\<close>. All three are live: vehicle 0 stands five units from
  its place and tows vehicle 2; vehicle 1 stands in another virtual world; vehicle 2 is in
  place and carries two occupants. Descriptors 0 and 1 hold the recent-usage pin.
\<close>

definition demoDescriptor :: "sref \<Rightarrow> storedVehicle" where
  "demoDescriptor sv =
     \<lparr>modelId = 411, position = Vector 0 0 0, interiorId = 0, virtualWorld = 0,
      respawnDelay = (if sv = 1 then - 1 else 30), deathFn = Some 7, respawnFn = None,
      accessFn = None\<rparr>"

definition demoVehicle :: "vref \<Rightarrow> vehicle" where
  "demoVehicle v =
     \<lparr>vehPosition = (if v = 0 then Vector 5 0 0 else Vector 0 0 0), vehInteriorId = 0,
      vehVirtualWorld = (if v = 1 then 4 else 0), occupantCount = (if v = 2 then 2 else 0),
      connected = True, trailer = (if v = 0 then Some 2 else None)\<rparr>"

definition demoWorld :: world where
  "demoWorld =
     \<lparr>this_disposed = False, this_vehicles = [(0, 0), (1, 1), (2, 2)],
      this_storedVehicles = [(0, 0), (1, 1), (2, 2)], this_respawnTokens = [],
      this_pinned = {(0, RecentUsagePin), (1, RecentUsagePin)}, registered = [0, 1, 2],
      streamingDistance = 300, storedObjs = demoDescriptor, vehicleObjs = demoVehicle,
      players = [3], nextVehicle = 3, nextSymbol = 0, timers = [], effects = []\<rparr>"

text \<open>A freshly constructed streamer, and one whose only live vehicle is far away.\<close>

definition emptyWorld :: world where
  "emptyWorld =
     demoWorld\<lparr>this_vehicles := [], this_storedVehicles := [], this_pinned := {},
                nextVehicle := 0\<rparr>"

definition farWorld :: world where
  "farWorld =
     demoWorld\<lparr>this_vehicles := [(0, 0)], this_storedVehicles := [(0, 0)],
                vehicleObjs := (\<lambda>v. (demoVehicle v)\<lparr>vehPosition := Vector 10000000000000000 0 0\<rparr>)\<rparr>"

section \<open>Contract violations\<close>

text \<open>
  C8. \<^verbatim>\<open>createEntity\<close> on a stored vehicle that already has a live vehicle throws, and
  \<^verbatim>\<open>deleteEntity\<close> on a stored vehicle that has no live vehicle throws; the failing call
  leaves the whole world (maps and tokens included) as it found it. Each call throws in
  no other case.
\<close>

theorem createEntity_deleteEntity_fail_fast:
  "(map_of (this_vehicles s) sv \<noteq> None \<longrightarrow>
      createEntity s sv = (Inl (Error ''Attempting to create a vehicle that already exists.''), s))
   \<and> (map_of (this_vehicles s) sv = None \<longrightarrow>
      deleteEntity s sv = (Inl (Error ''Attempting to delete an invalid vehicle.''), s))
   \<and> (isl (fst (createEntity s sv)) \<longleftrightarrow> map_of (this_vehicles s) sv \<noteq> None)
   \<and> (isl (fst (deleteEntity s sv)) \<longleftrightarrow> map_of (this_vehicles s) sv = None)"
  by (auto simp add: createEntity_def deleteEntity_def Let_def split: option.splits prod.splits)

theorem createEntity_deleteEntity_fail_fast_witness:
  "createEntity demoWorld 0
     = (Inl (Error ''Attempting to create a vehicle that already exists.''), demoWorld)
   \<and> deleteEntity demoWorld 5
     = (Inl (Error ''Attempting to delete an invalid vehicle.''), demoWorld)"
proof -
  have live: "map_of (this_vehicles demoWorld) 0 \<noteq> None"
    by (simp add: demoWorld_def)
  have absent: "map_of (this_vehicles demoWorld) 5 = None"
    by (simp add: demoWorld_def)
  from createEntity_deleteEntity_fail_fast [of demoWorld 0] live
       createEntity_deleteEntity_fail_fast [of demoWorld 5] absent
  show ?thesis by blast
qed

section \<open>The sentinel delay\<close>

text \<open>
  C4. For a stored vehicle whose \<open>respawnDelay\<close> is negative (the "never" sentinel),
  \<^verbatim>\<open>scheduleVehicleForRespawn\<close> with any positive multiplier returns at once: it assigns
  no respawn token and creates no symbol, starts no timer (so nothing is left to respawn
  the vehicle later), calls nothing outside, and its only change is to remove the
  recent-usage pin of the descriptor.
\<close>

theorem never_respawn_sentinel:
  assumes "respawnDelay (storedObjs s sv) < 0" and "0 < m"
  shows "scheduleVehicleForRespawn s v sv m
           = s\<lparr>this_pinned := this_pinned s - {(sv, RecentUsagePin)}\<rparr>
    \<and> this_respawnTokens (scheduleVehicleForRespawn s v sv m) = this_respawnTokens s
    \<and> nextSymbol (scheduleVehicleForRespawn s v sv m) = nextSymbol s
    \<and> timers (scheduleVehicleForRespawn s v sv m) = timers s
    \<and> effects (scheduleVehicleForRespawn s v sv m) = effects s
    \<and> (sv, RecentUsagePin) \<notin> this_pinned (scheduleVehicleForRespawn s v sv m)"
proof -
  have "real_of_int (respawnDelay (storedObjs s sv)) * m < 0"
    using assms by (simp add: mult_less_0_iff)
  then have "scheduleVehicleForRespawn s v sv m
               = s\<lparr>this_pinned := this_pinned s - {(sv, RecentUsagePin)}\<rparr>"
    by (simp add: scheduleVehicleForRespawn_def unpin_def)
  then show ?thesis by simp
qed

theorem never_respawn_sentinel_witness:
  "this_respawnTokens (scheduleVehicleForRespawn demoWorld 1 1 (1 / 2)) = []
   \<and> timers (scheduleVehicleForRespawn demoWorld 1 1 (1 / 2)) = []
   \<and> effects (scheduleVehicleForRespawn demoWorld 1 1 (1 / 2)) = []
   \<and> (1, RecentUsagePin) \<in> this_pinned demoWorld
   \<and> (1, RecentUsagePin) \<notin> this_pinned (scheduleVehicleForRespawn demoWorld 1 1 (1 / 2))"
proof -
  have sentinel: "respawnDelay (storedObjs demoWorld 1) < 0"
    by (simp add: demoWorld_def demoDescriptor_def)
  have "(0::real) < 1 / 2" by simp
  from never_respawn_sentinel [OF sentinel this, of 1]
  show ?thesis by (simp add: demoWorld_def)
qed

lemma map_of_delete_same: "map_of (AList.delete k al) k = None"
  by (simp add: delete_conv')

section \<open>Entering and leaving\<close>

text \<open>
  C5. When a player enters a vehicle that the streamer manages, the streamer applies the
  recent-usage pin to the vehicle's descriptor and clears the vehicle's respawn token, and
  changes nothing else (the tokens of other vehicles stay); from then on a scheduled
  respawn of that vehicle that resumes, whatever token it captured, leaves the world as
  it is. A vehicle the streamer does not manage is left completely unchanged.
\<close>

theorem onPlayerEnterVehicle_pins_and_cancels:
  "(map_of (this_storedVehicles s) v = None \<longrightarrow> onPlayerEnterVehicle s v = s)
   \<and> (\<forall>sv. map_of (this_storedVehicles s) v = Some sv \<longrightarrow>
         onPlayerEnterVehicle s v
           = s\<lparr>this_pinned := insert (sv, RecentUsagePin) (this_pinned s),
                this_respawnTokens := AList.delete v (this_respawnTokens s)\<rparr>
         \<and> (sv, RecentUsagePin) \<in> this_pinned (onPlayerEnterVehicle s v)
         \<and> map_of (this_respawnTokens (onPlayerEnterVehicle s v)) v = None
         \<and> (\<forall>w. w \<noteq> v \<longrightarrow>
               map_of (this_respawnTokens (onPlayerEnterVehicle s v)) w
                 = map_of (this_respawnTokens s) w)
         \<and> (\<forall>fuel token.
               scheduleVehicleForRespawn_resumed fuel (onPlayerEnterVehicle s v) v token
                 = Some (onPlayerEnterVehicle s v)))"
  by (auto simp add: onPlayerEnterVehicle_def pin_def scheduleVehicleForRespawn_resumed_def
        map_of_delete_same)

theorem onPlayerEnterVehicle_pins_and_cancels_witness:
  "onPlayerEnterVehicle demoWorld 9 = demoWorld
   \<and> (2, RecentUsagePin) \<notin> this_pinned demoWorld
   \<and> (2, RecentUsagePin) \<in> this_pinned (onPlayerEnterVehicle demoWorld 2)
   \<and> map_of (this_respawnTokens (onPlayerEnterVehicle demoWorld 2)) 2 = None
   \<and> scheduleVehicleForRespawn_resumed 5 (onPlayerEnterVehicle demoWorld 2) 2 0
        = Some (onPlayerEnterVehicle demoWorld 2)"
proof -
  have unmanaged: "map_of (this_storedVehicles demoWorld) 9 = None"
    by (simp add: demoWorld_def)
  have managed: "map_of (this_storedVehicles demoWorld) 2 = Some 2"
    by (simp add: demoWorld_def)
  have unpinned: "(2, RecentUsagePin) \<notin> this_pinned demoWorld"
    by (simp add: demoWorld_def)
  from onPlayerEnterVehicle_pins_and_cancels [of demoWorld 9] unmanaged
       onPlayerEnterVehicle_pins_and_cancels [of demoWorld 2] managed unpinned
  show ?thesis by blast
qed

lemma scheduleVehicleForRespawn_nonneg:
  assumes "0 \<le> real_of_int (respawnDelay (storedObjs s sv)) * m"
  shows "scheduleVehicleForRespawn s v sv m
           = s\<lparr>nextSymbol := Suc (nextSymbol s),
                this_respawnTokens := AList.update v (nextSymbol s) (this_respawnTokens s),
                timers := timers s @ [(real_of_int (respawnDelay (storedObjs s sv)) * m, v, nextSymbol s)]\<rparr>"
  using assms by (simp add: scheduleVehicleForRespawn_def Let_def)

lemma scheduleVehicleForRespawn_neg:
  assumes "real_of_int (respawnDelay (storedObjs s sv)) * m < 0"
  shows "scheduleVehicleForRespawn s v sv m
           = s\<lparr>this_pinned := this_pinned s - {(sv, RecentUsagePin)}\<rparr>"
  using assms by (simp add: scheduleVehicleForRespawn_def Let_def unpin_def)

lemma scheduleVehicleForRespawn_scheduled:
  assumes "0 \<le> real_of_int (respawnDelay (storedObjs s sv)) * m"
  shows "respawnScheduled s (scheduleVehicleForRespawn s v sv m) v
           (real_of_int (respawnDelay (storedObjs s sv)) * m)"
  by (simp add: scheduleVehicleForRespawn_nonneg [OF assms] respawnScheduled_def
        update_conv' timersOf_def)

text \<open>
  C6, amended. The handler runs while the leaving player is still counted: its test for
  "players are left" is \<^verbatim>\<open>occupantCount > 1\<close>. When a player leaves a managed vehicle and
  no other occupant remains (the count is at most 1), then: if the descriptor's
  \<open>respawnDelay\<close> is not negative, a respawn is scheduled after exactly \<open>respawnDelay\<close>
  seconds (multiplier 1), with a new token, and nothing is unpinned or called; if the
  delay is the negative sentinel, nothing is scheduled and the only change is that the
  recent-usage pin is released. When other occupants remain, or the vehicle is not managed,
  the world is unchanged (no respawn scheduled, the token as it was).
\<close>

theorem onPlayerLeaveVehicle_schedules_unless_never:
  "(map_of (this_storedVehicles s) v = None \<longrightarrow> onPlayerLeaveVehicle s v = s)
   \<and> (\<forall>sv. map_of (this_storedVehicles s) v = Some sv \<longrightarrow>
        (1 < occupantCount (vehicleObjs s v) \<longrightarrow> onPlayerLeaveVehicle s v = s)
      \<and> (occupantCount (vehicleObjs s v) \<le> 1 \<and> 0 \<le> respawnDelay (storedObjs s sv) \<longrightarrow>
           respawnScheduled s (onPlayerLeaveVehicle s v) v
             (real_of_int (respawnDelay (storedObjs s sv)))
         \<and> timers (onPlayerLeaveVehicle s v)
             = timers s @ [(real_of_int (respawnDelay (storedObjs s sv)), v, nextSymbol s)]
         \<and> map_of (this_respawnTokens (onPlayerLeaveVehicle s v)) v = Some (nextSymbol s)
         \<and> this_pinned (onPlayerLeaveVehicle s v) = this_pinned s
         \<and> effects (onPlayerLeaveVehicle s v) = effects s)
      \<and> (occupantCount (vehicleObjs s v) \<le> 1 \<and> respawnDelay (storedObjs s sv) < 0 \<longrightarrow>
           onPlayerLeaveVehicle s v = s\<lparr>this_pinned := this_pinned s - {(sv, RecentUsagePin)}\<rparr>))"
proof (intro conjI allI impI)
  assume "map_of (this_storedVehicles s) v = None"
  then show "onPlayerLeaveVehicle s v = s"
    by (simp add: onPlayerLeaveVehicle_def)
next
  fix sv
  assume "map_of (this_storedVehicles s) v = Some sv" "1 < occupantCount (vehicleObjs s v)"
  then show "onPlayerLeaveVehicle s v = s"
    by (simp add: onPlayerLeaveVehicle_def)
next
  fix sv
  assume managed: "map_of (this_storedVehicles s) v = Some sv"
    and last: "occupantCount (vehicleObjs s v) \<le> 1 \<and> 0 \<le> respawnDelay (storedObjs s sv)"
  then have leave: "onPlayerLeaveVehicle s v = scheduleVehicleForRespawn s v sv 1"
    by (simp add: onPlayerLeaveVehicle_def)
  have nonneg: "0 \<le> real_of_int (respawnDelay (storedObjs s sv)) * 1"
    using last by simp
  show "respawnScheduled s (onPlayerLeaveVehicle s v) v
             (real_of_int (respawnDelay (storedObjs s sv)))"
    using scheduleVehicleForRespawn_scheduled [OF nonneg, of v] leave by simp
  show "timers (onPlayerLeaveVehicle s v)
             = timers s @ [(real_of_int (respawnDelay (storedObjs s sv)), v, nextSymbol s)]"
    by (simp add: leave scheduleVehicleForRespawn_nonneg [OF nonneg])
  show "map_of (this_respawnTokens (onPlayerLeaveVehicle s v)) v = Some (nextSymbol s)"
    by (simp add: leave scheduleVehicleForRespawn_nonneg [OF nonneg] update_conv')
  show "this_pinned (onPlayerLeaveVehicle s v) = this_pinned s"
    by (simp add: leave scheduleVehicleForRespawn_nonneg [OF nonneg])
  show "effects (onPlayerLeaveVehicle s v) = effects s"
    by (simp add: leave scheduleVehicleForRespawn_nonneg [OF nonneg])
next
  fix sv
  assume managed: "map_of (this_storedVehicles s) v = Some sv"
    and last: "occupantCount (vehicleObjs s v) \<le> 1 \<and> respawnDelay (storedObjs s sv) < 0"
  then have leave: "onPlayerLeaveVehicle s v = scheduleVehicleForRespawn s v sv 1"
    by (simp add: onPlayerLeaveVehicle_def)
  have "real_of_int (respawnDelay (storedObjs s sv)) * 1 < 0"
    using last by simp
  from scheduleVehicleForRespawn_neg [OF this] leave
  show "onPlayerLeaveVehicle s v = s\<lparr>this_pinned := this_pinned s - {(sv, RecentUsagePin)}\<rparr>"
    by simp
qed

theorem onPlayerLeaveVehicle_schedules_unless_never_witness:
  "onPlayerLeaveVehicle demoWorld 2 = demoWorld
   \<and> onPlayerLeaveVehicle demoWorld 9 = demoWorld
   \<and> respawnScheduled demoWorld (onPlayerLeaveVehicle demoWorld 0) 0 30
   \<and> timers (onPlayerLeaveVehicle demoWorld 0) = [(30, 0, 0)]
   \<and> onPlayerLeaveVehicle demoWorld 1
       = demoWorld\<lparr>this_pinned := this_pinned demoWorld - {(1, RecentUsagePin)}\<rparr>"
proof -
  have facts:
    "map_of (this_storedVehicles demoWorld) 9 = None"
    "map_of (this_storedVehicles demoWorld) 2 = Some 2"
    "map_of (this_storedVehicles demoWorld) 0 = Some 0"
    "map_of (this_storedVehicles demoWorld) 1 = Some 1"
    "1 < occupantCount (vehicleObjs demoWorld 2)"
    "occupantCount (vehicleObjs demoWorld 0) \<le> 1 \<and> 0 \<le> respawnDelay (storedObjs demoWorld 0)"
    "occupantCount (vehicleObjs demoWorld 1) \<le> 1 \<and> respawnDelay (storedObjs demoWorld 1) < 0"
    "real_of_int (respawnDelay (storedObjs demoWorld 0)) = 30"
    "timers demoWorld = []" "nextSymbol demoWorld = 0"
    by (simp_all add: demoWorld_def demoDescriptor_def demoVehicle_def)
  from onPlayerLeaveVehicle_schedules_unless_never [of demoWorld 9]
       onPlayerLeaveVehicle_schedules_unless_never [of demoWorld 2]
       onPlayerLeaveVehicle_schedules_unless_never [of demoWorld 0]
       onPlayerLeaveVehicle_schedules_unless_never [of demoWorld 1] facts
  show ?thesis by (metis append_Nil)
qed

text \<open>
  C6 as stated fails for a descriptor with the sentinel delay: the last occupant leaves
  managed vehicle 1, and no respawn is scheduled for it (no timer, no token).
\<close>

theorem onPlayerLeaveVehicle_never_counterexample:
  "map_of (this_storedVehicles demoWorld) 1 = Some 1
   \<and> occupantCount (vehicleObjs demoWorld 1) = 0
   \<and> \<not> respawnScheduled demoWorld (onPlayerLeaveVehicle demoWorld 1) 1
         (real_of_int (respawnDelay (storedObjs demoWorld 1)))
   \<and> timers (onPlayerLeaveVehicle demoWorld 1) = []
   \<and> map_of (this_respawnTokens (onPlayerLeaveVehicle demoWorld 1)) 1 = None"
  by (simp add: demoWorld_def demoDescriptor_def demoVehicle_def onPlayerLeaveVehicle_def
        scheduleVehicleForRespawn_def unpin_def respawnScheduled_def)

section \<open>The live maps\<close>

lemma fold_only_effects:
  assumes "\<And>x s. f x s = s\<lparr>effects := effects (f x s)\<rparr>"
  shows "fold f xs s = s\<lparr>effects := effects (fold f xs s)\<rparr>"
proof (induction xs arbitrary: s)
  case Nil
  show ?case by simp
next
  case (Cons x xs)
  have "fold f (x # xs) s = fold f xs (f x s)" by simp
  also have "\<dots> = (f x s)\<lparr>effects := effects (fold f xs (f x s))\<rparr>"
    by (rule Cons.IH)
  also have "\<dots> = (s\<lparr>effects := effects (f x s)\<rparr>)\<lparr>effects := effects (fold f xs (f x s))\<rparr>"
    using assms [of x s] by simp
  finally show ?case by simp
qed

lemma synchronizeAccess_only_effects:
  "synchronizeAccess sv v p s = s\<lparr>effects := effects (synchronizeAccess sv v p s)\<rparr>"
  by (simp add: synchronizeAccess_def emit_def)

lemma synchronizeAccessForVehicle_only_effects:
  "synchronizeAccessForVehicle s sv = s\<lparr>effects := effects (synchronizeAccessForVehicle s sv)\<rparr>"
proof (cases "map_of (this_vehicles s) sv")
  case None
  then show ?thesis by (simp add: synchronizeAccessForVehicle_def)
next
  case (Some v)
  then show ?thesis
    using fold_only_effects [of "synchronizeAccess sv v" "players s" s, OF synchronizeAccess_only_effects]
    by (simp add: synchronizeAccessForVehicle_def)
qed

lemma synchronizeAccessForPlayer_only_effects:
  "synchronizeAccessForPlayer s p = s\<lparr>effects := effects (synchronizeAccessForPlayer s p)\<rparr>"
  unfolding synchronizeAccessForPlayer_def
  by (rule fold_only_effects) (simp add: synchronizeAccess_def emit_def split: prod.splits)

lemma synchronizeAccessForVehicle_frame:
  "this_vehicles (synchronizeAccessForVehicle s sv) = this_vehicles s"
  "this_storedVehicles (synchronizeAccessForVehicle s sv) = this_storedVehicles s"
  "this_respawnTokens (synchronizeAccessForVehicle s sv) = this_respawnTokens s"
  "nextVehicle (synchronizeAccessForVehicle s sv) = nextVehicle s"
  "nextSymbol (synchronizeAccessForVehicle s sv) = nextSymbol s"
  by (subst synchronizeAccessForVehicle_only_effects, simp)+

lemma synchronizeAccessForPlayer_frame:
  "this_vehicles (synchronizeAccessForPlayer s p) = this_vehicles s"
  "this_storedVehicles (synchronizeAccessForPlayer s p) = this_storedVehicles s"
  "this_respawnTokens (synchronizeAccessForPlayer s p) = this_respawnTokens s"
  "nextVehicle (synchronizeAccessForPlayer s p) = nextVehicle s"
  "nextSymbol (synchronizeAccessForPlayer s p) = nextSymbol s"
  by (subst synchronizeAccessForPlayer_only_effects, simp)+

lemma createEntity_absent:
  assumes "map_of (this_vehicles s) sv = None"
  shows "this_vehicles (snd (createEntity s sv))
           = AList.update sv (nextVehicle s) (this_vehicles s)"
    and "this_storedVehicles (snd (createEntity s sv))
           = AList.update (nextVehicle s) sv (this_storedVehicles s)"
    and "nextVehicle (snd (createEntity s sv)) = Suc (nextVehicle s)"
  using assms
  by (simp_all add: createEntity_def createVehicle_def emit_def Let_def
        synchronizeAccessForVehicle_frame)

lemma createEntity_tokens:
  "this_respawnTokens (snd (createEntity s sv)) = this_respawnTokens s"
  "nextSymbol (snd (createEntity s sv)) = nextSymbol s"
  by (simp_all add: createEntity_def createVehicle_def emit_def Let_def
        synchronizeAccessForVehicle_frame)

lemma createEntity_present:
  "map_of (this_vehicles s) sv = Some v \<Longrightarrow> snd (createEntity s sv) = s"
  by (simp add: createEntity_def)

lemma deleteEntity_absent:
  "map_of (this_vehicles s) sv = None \<Longrightarrow> snd (deleteEntity s sv) = s"
  by (simp add: deleteEntity_def)

lemma deleteEntity_present:
  assumes "map_of (this_vehicles s) sv = Some v"
  shows "this_vehicles (snd (deleteEntity s sv)) = AList.delete sv (this_vehicles s)"
    and "this_storedVehicles (snd (deleteEntity s sv)) = AList.delete v (this_storedVehicles s)"
    and "nextVehicle (snd (deleteEntity s sv)) = nextVehicle s"
  using assms
  by (simp_all add: deleteEntity_def Let_def callDeathFn_def emit_def vehicle_dispose_def
        split: option.splits)

lemma deleteEntity_tokens:
  "this_respawnTokens (snd (deleteEntity s sv)) = this_respawnTokens s"
  "nextSymbol (snd (deleteEntity s sv)) = nextSymbol s"
  by (simp_all add: deleteEntity_def Let_def callDeathFn_def emit_def vehicle_dispose_def
        split: option.splits)

lemma liveMapsOk_createEntity:
  assumes "liveMapsOk s"
  shows "liveMapsOk (snd (createEntity s sv))"
proof (cases "map_of (this_vehicles s) sv")
  case (Some v)
  then show ?thesis using assms by (simp add: createEntity_present)
next
  case None
  note eq = createEntity_absent [OF None]
  have fresh: "nextVehicle s \<notin> fst ` set (this_storedVehicles s)"
    using assms by (auto simp add: liveMapsOk_def)
  then have unmapped: "map_of (this_storedVehicles s) (nextVehicle s) = None"
    by (simp add: map_of_eq_None_iff)
  have inv: "mutualInverses s" using assms by (simp add: liveMapsOk_def)
  have "mutualInverses (snd (createEntity s sv))"
    using inv None unmapped
    by (auto simp add: mutualInverses_def eq update_conv')
       (metis option.distinct(1))+
  moreover have "distinct (map fst (this_vehicles (snd (createEntity s sv))))"
    "distinct (map fst (this_storedVehicles (snd (createEntity s sv))))"
    using assms by (simp_all add: eq liveMapsOk_def distinct_update)
  moreover have "\<forall>v \<in> fst ` set (this_storedVehicles (snd (createEntity s sv))).
                   v < nextVehicle (snd (createEntity s sv))"
    using assms by (auto simp add: eq liveMapsOk_def dom_update less_Suc_eq)
  ultimately show ?thesis by (simp add: liveMapsOk_def)
qed

lemma liveMapsOk_deleteEntity:
  assumes "liveMapsOk s"
  shows "liveMapsOk (snd (deleteEntity s sv))"
proof (cases "map_of (this_vehicles s) sv")
  case None
  then show ?thesis using assms by (simp add: deleteEntity_absent)
next
  case (Some v)
  note eq = deleteEntity_present [OF Some]
  have inv: "mutualInverses s" using assms by (simp add: liveMapsOk_def)
  have "mutualInverses (snd (deleteEntity s sv))"
    using inv Some
    by (auto simp add: mutualInverses_def eq delete_conv')
       (metis option.inject)+
  moreover have "distinct (map fst (this_vehicles (snd (deleteEntity s sv))))"
    "distinct (map fst (this_storedVehicles (snd (deleteEntity s sv))))"
    using assms by (simp_all add: eq liveMapsOk_def distinct_delete)
  moreover have "\<forall>v \<in> fst ` set (this_storedVehicles (snd (deleteEntity s sv))).
                   v < nextVehicle (snd (deleteEntity s sv))"
    using assms by (auto simp add: eq liveMapsOk_def AList.delete_eq)
  ultimately show ?thesis by (simp add: liveMapsOk_def)
qed

lemma liveMapsOk_constructed: "constructed s \<Longrightarrow> liveMapsOk s"
  by (simp add: constructed_def liveMapsOk_def mutualInverses_def)

lemma liveMapsOk_applyOp: "liveMapsOk s \<Longrightarrow> liveMapsOk (applyOp s x)"
  by (cases x) (simp_all add: liveMapsOk_createEntity liveMapsOk_deleteEntity)

lemma liveMapsOk_applyOps: "liveMapsOk s \<Longrightarrow> liveMapsOk (applyOps s ops)"
  unfolding applyOps_def by (induction ops arbitrary: s) (simp_all add: liveMapsOk_applyOp)


text \<open>
  C2. After every sequence of \<^verbatim>\<open>createEntity\<close> and \<^verbatim>\<open>deleteEntity\<close> calls on a constructed
  streamer (failing calls included), the maps stored vehicle \<open>\<rightarrow>\<close> vehicle and vehicle
  \<open>\<rightarrow>\<close> stored vehicle are mutual inverses: every entry of one has the matching reverse
  entry in the other, no two stored vehicles map to one live vehicle, no two live vehicles
  map to one stored vehicle, and each map holds one entry per key.
\<close>

theorem live_maps_partial_bijection:
  assumes "constructed s0"
  shows "mutualInverses (applyOps s0 ops)
    \<and> (\<forall>sv sv' v. map_of (this_vehicles (applyOps s0 ops)) sv = Some v
                   \<and> map_of (this_vehicles (applyOps s0 ops)) sv' = Some v \<longrightarrow> sv = sv')
    \<and> (\<forall>v v' sv. map_of (this_storedVehicles (applyOps s0 ops)) v = Some sv
                  \<and> map_of (this_storedVehicles (applyOps s0 ops)) v' = Some sv \<longrightarrow> v = v')
    \<and> distinct (map fst (this_vehicles (applyOps s0 ops)))
    \<and> distinct (map fst (this_storedVehicles (applyOps s0 ops)))"
proof -
  have ok: "liveMapsOk (applyOps s0 ops)"
    using assms by (simp add: liveMapsOk_constructed liveMapsOk_applyOps)
  then have inv: "mutualInverses (applyOps s0 ops)"
    by (simp add: liveMapsOk_def)
  have "\<forall>sv sv' v. map_of (this_vehicles (applyOps s0 ops)) sv = Some v
                   \<and> map_of (this_vehicles (applyOps s0 ops)) sv' = Some v \<longrightarrow> sv = sv'"
    using inv unfolding mutualInverses_def by (metis option.inject)
  moreover have "\<forall>v v' sv. map_of (this_storedVehicles (applyOps s0 ops)) v = Some sv
                  \<and> map_of (this_storedVehicles (applyOps s0 ops)) v' = Some sv \<longrightarrow> v = v'"
    using inv unfolding mutualInverses_def by (metis option.inject)
  ultimately show ?thesis using ok inv by (simp add: liveMapsOk_def)
qed

lemma applyOps_demo:
  "this_vehicles (applyOps emptyWorld [CreateEntity 0, CreateEntity 1, CreateEntity 1, DeleteEntity 0, DeleteEntity 0]) = [(1, 1)]"
  "this_storedVehicles (applyOps emptyWorld [CreateEntity 0, CreateEntity 1, CreateEntity 1, DeleteEntity 0, DeleteEntity 0]) = [(1, 1)]"
  by (simp_all add: applyOps_def emptyWorld_def demoWorld_def demoDescriptor_def
      demoVehicle_def createEntity_def createVehicle_def deleteEntity_def emit_def Let_def
      synchronizeAccessForVehicle_def synchronizeAccess_def hasAccess_def callDeathFn_def
      vehicle_dispose_def)

theorem live_maps_partial_bijection_witness:
  "constructed emptyWorld
   \<and> mutualInverses (applyOps emptyWorld
        [CreateEntity 0, CreateEntity 1, CreateEntity 1, DeleteEntity 0, DeleteEntity 0])
   \<and> distinct (map fst (this_vehicles (applyOps emptyWorld
        [CreateEntity 0, CreateEntity 1, CreateEntity 1, DeleteEntity 0, DeleteEntity 0])))
   \<and> this_vehicles (applyOps emptyWorld
        [CreateEntity 0, CreateEntity 1, CreateEntity 1, DeleteEntity 0, DeleteEntity 0]) = [(1, 1)]
   \<and> this_storedVehicles (applyOps emptyWorld
        [CreateEntity 0, CreateEntity 1, CreateEntity 1, DeleteEntity 0, DeleteEntity 0]) = [(1, 1)]"
proof -
  have start: "constructed emptyWorld"
    by (simp add: constructed_def emptyWorld_def demoWorld_def)
  from live_maps_partial_bijection [OF start,
      of "[CreateEntity 0, CreateEntity 1, CreateEntity 1, DeleteEntity 0, DeleteEntity 0]"]
    start applyOps_demo
  show ?thesis by simp
qed

section \<open>The token discipline\<close>

lemma fold_preorder:
  assumes "\<And>s. R s s" and "\<And>a b c. R a b \<Longrightarrow> R b c \<Longrightarrow> R a c" and "\<And>x s. R s (f x s)"
  shows "R s (fold f xs s)"
proof (induction xs arbitrary: s)
  case Nil
  show ?case by (simp add: assms(1))
next
  case (Cons x xs)
  have "R s (f x s)" by (rule assms(3))
  moreover have "R (f x s) (fold f xs (f x s))" by (rule Cons.IH)
  ultimately show ?case using assms(2) by auto
qed

lemma respawnChain_preorder:
  assumes "\<And>s. R s s" and "\<And>a b c. R a b \<Longrightarrow> R b c \<Longrightarrow> R a c"
    and "\<And>s v. R s (respawnLink s v)"
    and "respawnChain fuel s start = Some s'"
  shows "R s s'"
  using assms(4)
proof (induction fuel s start rule: respawnChain.induct)
  case (1 fuel s)
  then show ?case by (simp add: assms(1))
next
  case (2 s v)
  then show ?case by simp
next
  case (3 fuel s v)
  from 3 have "R (respawnLink s v) s'" by (simp add: Let_def)
  with assms(3) [of s v] show ?case using assms(2) by blast
qed

lemma tokenStep_refl: "tokenStep s s"
  by (simp add: tokenStep_def)

lemma tokenStep_trans: "tokenStep a b \<Longrightarrow> tokenStep b c \<Longrightarrow> tokenStep a c"
  unfolding tokenStep_def by (meson le_trans less_le_trans)

lemma tokenStep_same:
  "this_respawnTokens s' = this_respawnTokens s \<Longrightarrow> nextSymbol s' = nextSymbol s
     \<Longrightarrow> tokenStep s s'"
  by (simp add: tokenStep_def)

lemma tokenStep_delete:
  "this_respawnTokens s' = AList.delete v (this_respawnTokens s) \<Longrightarrow> nextSymbol s' = nextSymbol s
     \<Longrightarrow> tokenStep s s'"
  by (auto simp add: tokenStep_def delete_conv' split: if_splits)

lemma tokenStep_scheduleVehicleForRespawn:
  "tokenStep s (scheduleVehicleForRespawn s v sv m)"
  by (auto simp add: tokenStep_def scheduleVehicleForRespawn_def unpin_def Let_def update_conv'
        split: if_splits)

lemmas respawnLink_defs =
  respawnLink_def Let_def unpin_def callDeathFn_def emit_def vehicle_respawn_def

lemma respawnLink_frame:
  "this_vehicles (respawnLink s v) = this_vehicles s"
  "this_storedVehicles (respawnLink s v) = this_storedVehicles s"
  "nextVehicle (respawnLink s v) = nextVehicle s"
  "nextSymbol (respawnLink s v) = nextSymbol s"
  "storedObjs (respawnLink s v) = storedObjs s"
  "vehicleObjs (respawnLink s v) = vehicleObjs s"
  "timers (respawnLink s v) = timers s"
  by (simp_all add: respawnLink_defs split: option.splits)

lemma respawnLink_unmanaged:
  assumes "map_of (this_storedVehicles s) v = None"
  shows "this_respawnTokens (respawnLink s v) = this_respawnTokens s"
    and "this_pinned (respawnLink s v) = this_pinned s"
  using assms by (simp_all add: respawnLink_defs)

lemma respawnLink_managed:
  assumes "map_of (this_storedVehicles s) v = Some sv"
  shows "this_respawnTokens (respawnLink s v) = AList.delete v (this_respawnTokens s)"
    and "this_pinned (respawnLink s v) = this_pinned s - {(sv, RecentUsagePin)}"
  using assms by (simp_all add: respawnLink_defs split: option.splits)

lemma respawnLink_effects: "effects (respawnLink s v) = effects s @ linkEffects s v"
  by (simp add: respawnLink_defs linkEffects_def split: option.splits)

lemma tokenStep_respawnLink: "tokenStep s (respawnLink s v)"
proof (cases "map_of (this_storedVehicles s) v")
  case None
  then show ?thesis
    by (intro tokenStep_same) (simp_all add: respawnLink_unmanaged respawnLink_frame)
next
  case (Some sv)
  then show ?thesis
    by (intro tokenStep_delete [of _ v]) (simp_all add: respawnLink_managed respawnLink_frame)
qed

lemma tokenStep_resumed:
  assumes "scheduleVehicleForRespawn_resumed fuel s v token = Some s'"
  shows "tokenStep s s'"
proof (cases "\<not> connected (vehicleObjs s v) \<or> map_of (this_respawnTokens s) v \<noteq> Some token")
  case True
  with assms have "s' = s" by (simp add: scheduleVehicleForRespawn_resumed_def)
  then show ?thesis by (simp add: tokenStep_refl)
next
  case False
  with assms have "respawnChain fuel s (Some v) = Some s'"
    by (simp add: scheduleVehicleForRespawn_resumed_def)
  then show ?thesis
    by (rule respawnChain_preorder [of tokenStep, rotated 3])
       (auto intro: tokenStep_refl tokenStep_trans tokenStep_respawnLink)
qed

lemma tokenStep_processUnoccupiedVehicle: "tokenStep s (processUnoccupiedVehicle e s)"
  by (simp add: processUnoccupiedVehicle_def Let_def tokenStep_refl
        tokenStep_scheduleVehicleForRespawn)

lemma tokenStep_respawnUnoccupiedVehicle: "tokenStep s (respawnUnoccupiedVehicle e s)"
proof (cases "occupantCount (vehicleObjs s (snd e)) > 0")
  case True
  then show ?thesis by (simp add: respawnUnoccupiedVehicle_def Let_def tokenStep_refl)
next
  case False
  then show ?thesis
    by (intro tokenStep_delete [of _ "snd e"])
       (simp_all add: respawnUnoccupiedVehicle_def Let_def callDeathFn_def emit_def
          vehicle_respawn_def split: option.splits)
qed

lemma tokenStep_onPlayerEnterVehicle: "tokenStep s (onPlayerEnterVehicle s v)"
proof (cases "map_of (this_storedVehicles s) v")
  case None
  then show ?thesis by (simp add: onPlayerEnterVehicle_def tokenStep_refl)
next
  case (Some sv)
  then show ?thesis
    by (intro tokenStep_delete [of _ v]) (simp_all add: onPlayerEnterVehicle_def pin_def)
qed

lemma tokenStep_onPlayerLeaveVehicle: "tokenStep s (onPlayerLeaveVehicle s v)"
  by (simp add: onPlayerLeaveVehicle_def tokenStep_refl tokenStep_scheduleVehicleForRespawn
        split: option.splits)

lemma tokenStep_onVehicleDeath: "tokenStep s (onVehicleDeath s v)"
  by (simp add: onVehicleDeath_def tokenStep_refl tokenStep_scheduleVehicleForRespawn
        split: option.splits)

lemma transition_tokenStep:
  assumes "transition s s'"
  shows "tokenStep s s'"
  using assms
proof cases
  case (t_createEntity storedVehicle)
  then show ?thesis by (simp add: tokenStep_same createEntity_tokens)
next
  case (t_deleteEntity storedVehicle)
  then show ?thesis by (simp add: tokenStep_same deleteEntity_tokens)
next
  case (t_pin storedVehicle type)
  then show ?thesis by (simp add: tokenStep_same pin_def)
next
  case (t_unpin storedVehicle type)
  then show ?thesis by (simp add: tokenStep_same unpin_def)
next
  case (t_synchronizeAccessForVehicle storedVehicle)
  then show ?thesis by (simp add: tokenStep_same synchronizeAccessForVehicle_frame)
next
  case (t_synchronizeAccessForPlayer p)
  then show ?thesis by (simp add: tokenStep_same synchronizeAccessForPlayer_frame)
next
  case (t_scheduleVehicleForRespawn v storedVehicle timeMultipler)
  then show ?thesis by (simp add: tokenStep_scheduleVehicleForRespawn)
next
  case (t_resumed fuel v token)
  then show ?thesis by (simp add: tokenStep_resumed)
next
  case t_processUnoccupiedVehicleUpdates
  have "tokenStep s (fold processUnoccupiedVehicle (this_vehicles s) s)"
    by (rule fold_preorder [of tokenStep])
       (auto intro: tokenStep_refl tokenStep_trans tokenStep_processUnoccupiedVehicle)
  with t_processUnoccupiedVehicleUpdates show ?thesis
    by (simp add: processUnoccupiedVehicleUpdates_def tokenStep_refl)
next
  case t_respawnUnoccupiedVehicles
  have "tokenStep s (fold respawnUnoccupiedVehicle (this_vehicles s) s)"
    by (rule fold_preorder [of tokenStep])
       (auto intro: tokenStep_refl tokenStep_trans tokenStep_respawnUnoccupiedVehicle)
  with t_respawnUnoccupiedVehicles show ?thesis
    by (simp add: respawnUnoccupiedVehicles_def)
next
  case (t_onPlayerEnterVehicle v)
  then show ?thesis by (simp add: tokenStep_onPlayerEnterVehicle)
next
  case (t_onPlayerLeaveVehicle v)
  then show ?thesis by (simp add: tokenStep_onPlayerLeaveVehicle)
next
  case (t_onTrailerDetached v trailerVehicle)
  then show ?thesis by (simp add: onTrailerDetached_def tokenStep_onPlayerLeaveVehicle)
next
  case (t_onVehicleSpawn v)
  then show ?thesis
    by (intro tokenStep_same)
       (simp_all add: onVehicleSpawn_def Let_def emit_def split: option.splits)
next
  case (t_onVehicleDeath v)
  then show ?thesis by (simp add: tokenStep_onVehicleDeath)
next
  case t_dispose
  then show ?thesis by (simp add: tokenStep_def dispose_def emit_def)
next
  case (t_outside n so vo ps rs)
  then show ?thesis by (simp add: tokenStep_same)
qed

lemma rtranclp_transition_tokenStep:
  assumes "rtranclp transition s s'"
  shows "tokenStep s s'"
  using assms
proof (induction rule: rtranclp_induct)
  case base
  show ?case by (rule tokenStep_refl)
next
  case (step y z)
  then show ?case using transition_tokenStep tokenStep_trans by blast
qed

text \<open>
  C1. A respawn of vehicle \<open>v\<close> is scheduled (the call starts a timer whose continuation
  captured \<open>token\<close>). The run goes on with any steps of the streamer and of the world
  outside. If at some moment before the timer fires the vehicle's token is no longer
  \<open>token\<close> (it was replaced or cleared), or if the vehicle is disconnected when the timer
  fires, then the resumed continuation returns at once and leaves the whole world as it
  is: no unpin, no token change, no death hook, no respawn.
\<close>

theorem stale_respawn_does_nothing:
  assumes scheduled: "timers (scheduleVehicleForRespawn s0 v sv m) = timers s0 @ [(delay, v, token)]"
    and run1: "rtranclp transition (scheduleVehicleForRespawn s0 v sv m) s1"
    and run2: "rtranclp transition s1 s2"
    and stale: "map_of (this_respawnTokens s1) v \<noteq> Some token \<or> \<not> connected (vehicleObjs s2 v)"
  shows "scheduleVehicleForRespawn_resumed fuel s2 v token = Some s2"
proof -
  have nonneg: "\<not> real_of_int (respawnDelay (storedObjs s0 sv)) * m < 0"
    using scheduled by (auto simp add: scheduleVehicleForRespawn_def unpin_def)
  then have token: "token = nextSymbol s0"
    and next0: "nextSymbol (scheduleVehicleForRespawn s0 v sv m) = Suc (nextSymbol s0)"
    using scheduled by (simp_all add: scheduleVehicleForRespawn_def Let_def)
  have "nextSymbol (scheduleVehicleForRespawn s0 v sv m) \<le> nextSymbol s1"
    using rtranclp_transition_tokenStep [OF run1] by (simp add: tokenStep_def)
  then have old: "token < nextSymbol s1" using token next0 by simp
  have "map_of (this_respawnTokens s1) v \<noteq> Some token
          \<Longrightarrow> map_of (this_respawnTokens s2) v \<noteq> Some token"
    using rtranclp_transition_tokenStep [OF run2] old
    unfolding tokenStep_def by (metis not_less)
  with stale show ?thesis
    by (auto simp add: scheduleVehicleForRespawn_resumed_def)
qed


lemma demo_scheduled:
  "timers (scheduleVehicleForRespawn demoWorld 0 0 1) = timers demoWorld @ [(30, 0, 0)]"
  "map_of (this_respawnTokens (scheduleVehicleForRespawn demoWorld 0 0 1)) 0 = Some 0"
  "connected (vehicleObjs (scheduleVehicleForRespawn demoWorld 0 0 1) 0)"
  "vehicleObjs (scheduleVehicleForRespawn demoWorld 0 0 1) = demoVehicle"
  "storedObjs (scheduleVehicleForRespawn demoWorld 0 0 1) = demoDescriptor"
  "this_storedVehicles (scheduleVehicleForRespawn demoWorld 0 0 1) = [(0, 0), (1, 1), (2, 2)]"
  "effects (scheduleVehicleForRespawn demoWorld 0 0 1) = []"
  by (simp_all add: scheduleVehicleForRespawn_def demoWorld_def demoDescriptor_def
        demoVehicle_def Let_def)

theorem stale_respawn_does_nothing_witness:
  "scheduleVehicleForRespawn_resumed 3
     (onVehicleDeath (scheduleVehicleForRespawn demoWorld 0 0 1) 0) 0 0
     = Some (onVehicleDeath (scheduleVehicleForRespawn demoWorld 0 0 1) 0)"
proof -
  let ?s = "scheduleVehicleForRespawn demoWorld 0 0 1"
  have run1: "rtranclp transition ?s (onVehicleDeath ?s 0)"
    by (rule r_into_rtranclp) (rule t_onVehicleDeath)
  have run2: "rtranclp transition (onVehicleDeath ?s 0) (onVehicleDeath ?s 0)"
    by (rule rtranclp.rtrancl_refl)
  have replaced: "map_of (this_respawnTokens (onVehicleDeath ?s 0)) 0 = Some 1"
    by (simp add: onVehicleDeath_def scheduleVehicleForRespawn_def demoWorld_def
          demoDescriptor_def demoVehicle_def Let_def)
  then have stale: "map_of (this_respawnTokens (onVehicleDeath ?s 0)) 0 \<noteq> Some 0
                     \<or> \<not> connected (vehicleObjs (onVehicleDeath ?s 0) 0)"
    by simp
  from stale_respawn_does_nothing [OF demo_scheduled(1) run1 run2 stale]
  show ?thesis .
qed

lemma respawnLinks_frame:
  "this_vehicles (foldl respawnLink s links) = this_vehicles s"
  "this_storedVehicles (foldl respawnLink s links) = this_storedVehicles s"
  "nextVehicle (foldl respawnLink s links) = nextVehicle s"
  "nextSymbol (foldl respawnLink s links) = nextSymbol s"
  "storedObjs (foldl respawnLink s links) = storedObjs s"
  "vehicleObjs (foldl respawnLink s links) = vehicleObjs s"
  "timers (foldl respawnLink s links) = timers s"
  by (induction links arbitrary: s; simp add: respawnLink_frame)+

lemma respawnChain_links:
  assumes "isChain (vehicleObjs s) start links" and "length links \<le> fuel"
  shows "respawnChain fuel s start = Some (foldl respawnLink s links)"
  using assms
proof (induction links arbitrary: s start fuel)
  case Nil
  then show ?case by (cases start) simp_all
next
  case (Cons w links)
  from Cons.prems(1) obtain rest: "start = Some w"
    and chain: "isChain (vehicleObjs s) (trailer (vehicleObjs s w)) links"
    by (cases start) simp_all
  from Cons.prems(2) obtain n where fuel: "fuel = Suc n" and enough: "length links \<le> n"
    by (cases fuel) simp_all
  have "respawnChain n (respawnLink s w) (trailer (vehicleObjs s w))
          = Some (foldl respawnLink (respawnLink s w) links)"
    using chain enough by (intro Cons.IH) (simp_all add: respawnLink_frame)
  then show ?case by (simp add: rest fuel)
qed

lemma linkEffects_cong:
  assumes "this_storedVehicles s' = this_storedVehicles s" "storedObjs s' = storedObjs s"
    "vehicleObjs s' = vehicleObjs s"
  shows "linkEffects s' w = linkEffects s w"
  by (simp add: linkEffects_def assms split: option.splits)

lemma respawnLinks_effects:
  "effects (foldl respawnLink s links) = effects s @ concat (map (linkEffects s) links)"
proof (induction links arbitrary: s)
  case Nil
  show ?case by simp
next
  case (Cons w links)
  have "linkEffects (respawnLink s w) = linkEffects s"
    by (rule ext, rule linkEffects_cong) (simp_all add: respawnLink_frame)
  then have "map (linkEffects (respawnLink s w)) links = map (linkEffects s) links"
    by simp
  with Cons.IH [of "respawnLink s w"] show ?case
    by (simp add: respawnLink_effects)
qed

lemma respawnLinks_tokens:
  "map_of (this_respawnTokens (foldl respawnLink s links)) w
     = (if w \<in> set links \<and> map_of (this_storedVehicles s) w \<noteq> None then None
        else map_of (this_respawnTokens s) w)"
proof (induction links arbitrary: s)
  case Nil
  show ?case by simp
next
  case (Cons x links)
  show ?case
  proof (cases "map_of (this_storedVehicles s) x")
    case None
    with Cons.IH [of "respawnLink s x"] show ?thesis
      by (auto simp add: respawnLink_frame respawnLink_unmanaged)
  next
    case (Some sv)
    with Cons.IH [of "respawnLink s x"] show ?thesis
      by (auto simp add: respawnLink_frame respawnLink_managed delete_conv')
  qed
qed

lemma respawnLinks_pinned:
  "this_pinned (foldl respawnLink s links)
     = this_pinned s
       - {(sv, RecentUsagePin) |sv. \<exists>w \<in> set links. map_of (this_storedVehicles s) w = Some sv}"
proof (induction links arbitrary: s)
  case Nil
  show ?case by simp
next
  case (Cons x links)
  show ?case
  proof (cases "map_of (this_storedVehicles s) x")
    case None
    with Cons.IH [of "respawnLink s x"] show ?thesis
      by (auto simp add: respawnLink_frame respawnLink_unmanaged)
  next
    case (Some sv)
    with Cons.IH [of "respawnLink s x"] show ?thesis
      by (auto simp add: respawnLink_frame respawnLink_managed)
  qed
qed

section \<open>The cascade\<close>

text \<open>
  C7. When the continuation of a scheduled respawn resumes on a connected vehicle whose
  token is still the captured one, and \<open>links\<close> is the chain vehicle, trailer, trailer's
  trailer, ..., the loop ends (given fuel for every link) and has gone through the links in
  order: the outside sees, link after link, the death hook of the link's descriptor (when
  the streamer manages the link and the descriptor has a hook) and then the respawn of the
  link (when it is connected); every managed link has lost its descriptor's recent-usage
  pin and its respawn token. No other pin and no other token changes, and the maps, the
  objects, the timers and the symbol counter stay as they were.
\<close>

theorem respawn_cascades_through_trailers:
  assumes valid: "connected (vehicleObjs s v) \<and> map_of (this_respawnTokens s) v = Some token"
    and chain: "isChain (vehicleObjs s) (Some v) links"
    and fuel: "length links \<le> fuel"
  shows "\<exists>s'. scheduleVehicleForRespawn_resumed fuel s v token = Some s'
    \<and> effects s' = effects s @ concat (map (linkEffects s) links)
    \<and> (\<forall>w sv. w \<in> set links \<and> map_of (this_storedVehicles s) w = Some sv \<longrightarrow>
          (sv, RecentUsagePin) \<notin> this_pinned s' \<and> map_of (this_respawnTokens s') w = None)
    \<and> this_pinned s'
        = this_pinned s
          - {(sv, RecentUsagePin) |sv. \<exists>w \<in> set links. map_of (this_storedVehicles s) w = Some sv}
    \<and> (\<forall>w. w \<notin> set links \<or> map_of (this_storedVehicles s) w = None \<longrightarrow>
          map_of (this_respawnTokens s') w = map_of (this_respawnTokens s) w)
    \<and> sameLiveMaps s s' \<and> sameObjects s s' \<and> timers s' = timers s
    \<and> nextSymbol s' = nextSymbol s"
proof -
  let ?s' = "foldl respawnLink s links"
  have "scheduleVehicleForRespawn_resumed fuel s v token = respawnChain fuel s (Some v)"
    using valid by (simp add: scheduleVehicleForRespawn_resumed_def)
  also have "\<dots> = Some ?s'"
    using chain fuel by (rule respawnChain_links)
  finally have result: "scheduleVehicleForRespawn_resumed fuel s v token = Some ?s'" .
  have logged: "effects ?s' = effects s @ concat (map (linkEffects s) links)"
    by (rule respawnLinks_effects)
  have links:  "\<forall>w sv. w \<in> set links \<and> map_of (this_storedVehicles s) w = Some sv \<longrightarrow>
          (sv, RecentUsagePin) \<notin> this_pinned ?s' \<and> map_of (this_respawnTokens ?s') w = None"
    by (auto simp add: respawnLinks_pinned respawnLinks_tokens)
  have others: "\<forall>w. w \<notin> set links \<or> map_of (this_storedVehicles s) w = None \<longrightarrow>
          map_of (this_respawnTokens ?s') w = map_of (this_respawnTokens s) w"
    by (auto simp add: respawnLinks_tokens)
  have frame: "sameLiveMaps s ?s' \<and> sameObjects s ?s' \<and> timers ?s' = timers s
    \<and> nextSymbol ?s' = nextSymbol s"
    by (simp add: sameLiveMaps_def sameObjects_def respawnLinks_frame)
  show ?thesis
    by (rule exI [of _ ?s'])
       (intro conjI result logged links others respawnLinks_pinned frame [THEN conjunct1]
          frame [THEN conjunct2, THEN conjunct1]
          frame [THEN conjunct2, THEN conjunct2, THEN conjunct1]
          frame [THEN conjunct2, THEN conjunct2, THEN conjunct2])
qed

theorem respawn_cascades_through_trailers_witness:
  "\<exists>s'. scheduleVehicleForRespawn_resumed 2 (scheduleVehicleForRespawn demoWorld 0 0 1) 0 0
           = Some s'
    \<and> effects s' = [CallDeathFn 7 0 0, VehicleRespawn 0, CallDeathFn 7 2 2, VehicleRespawn 2]
    \<and> (0, RecentUsagePin) \<notin> this_pinned s'
    \<and> map_of (this_respawnTokens s') 0 = None
    \<and> map_of (this_respawnTokens s') 2 = None"
proof -
  let ?s = "scheduleVehicleForRespawn demoWorld 0 0 1"
  have valid: "connected (vehicleObjs ?s 0) \<and> map_of (this_respawnTokens ?s) 0 = Some 0"
    by (simp add: demo_scheduled demoVehicle_def)
  have chain: "isChain (vehicleObjs ?s) (Some 0) [0, 2]"
    by (simp add: demo_scheduled demoVehicle_def)
  have fuel: "length [0::nat, 2] \<le> 2" by simp
  have shown: "concat (map (linkEffects ?s) [0, 2])
                 = [CallDeathFn 7 0 0, VehicleRespawn 0, CallDeathFn 7 2 2, VehicleRespawn 2]"
    by (simp add: linkEffects_def demo_scheduled demoVehicle_def demoDescriptor_def)
  have managed: "map_of (this_storedVehicles ?s) 0 = Some 0"
    "map_of (this_storedVehicles ?s) 2 = Some 2"
    by (simp_all add: demo_scheduled)
  from respawn_cascades_through_trailers [OF valid chain fuel]
  obtain s' where result: "scheduleVehicleForRespawn_resumed 2 ?s 0 0 = Some s'"
    and logged: "effects s' = effects ?s @ concat (map (linkEffects ?s) [0, 2])"
    and links: "\<forall>w sv. w \<in> set [0, 2] \<and> map_of (this_storedVehicles ?s) w = Some sv \<longrightarrow>
          (sv, RecentUsagePin) \<notin> this_pinned s' \<and> map_of (this_respawnTokens s') w = None"
    by blast
  from links [rule_format, of 0 0] managed(1)
  have first: "(0, RecentUsagePin) \<notin> this_pinned s' \<and> map_of (this_respawnTokens s') 0 = None"
    by simp
  from links [rule_format, of 2 2] managed(2)
  have second: "map_of (this_respawnTokens s') 2 = None"
    by simp
  have none: "effects ?s = []" by (simp add: demo_scheduled)
  from logged shown none have "effects s' = [CallDeathFn 7 0 0, VehicleRespawn 0, CallDeathFn 7 2 2, VehicleRespawn 2]"
    by (simp only: append_Nil)
  with result first second show ?thesis
    by blast
qed

section \<open>The forced respawn\<close>

lemmas respawnUnoccupiedVehicle_defs =
  respawnUnoccupiedVehicle_def Let_def callDeathFn_def emit_def vehicle_respawn_def

lemma respawnUnoccupiedVehicle_frame:
  "this_vehicles (respawnUnoccupiedVehicle e s) = this_vehicles s"
  "this_storedVehicles (respawnUnoccupiedVehicle e s) = this_storedVehicles s"
  "nextVehicle (respawnUnoccupiedVehicle e s) = nextVehicle s"
  "nextSymbol (respawnUnoccupiedVehicle e s) = nextSymbol s"
  "storedObjs (respawnUnoccupiedVehicle e s) = storedObjs s"
  "vehicleObjs (respawnUnoccupiedVehicle e s) = vehicleObjs s"
  "timers (respawnUnoccupiedVehicle e s) = timers s"
  "this_pinned (respawnUnoccupiedVehicle e s) = this_pinned s"
  "this_disposed (respawnUnoccupiedVehicle e s) = this_disposed s"
  by (simp_all add: respawnUnoccupiedVehicle_defs split: option.splits)

lemma respawnUnoccupiedVehicle_effects:
  "effects (respawnUnoccupiedVehicle e s) = effects s @ forcedRespawnEffects s e"
  by (simp add: respawnUnoccupiedVehicle_defs forcedRespawnEffects_def split: option.splits)

lemma respawnUnoccupiedVehicle_tokens:
  "this_respawnTokens (respawnUnoccupiedVehicle e s)
     = (if occupantCount (vehicleObjs s (snd e)) > 0 then this_respawnTokens s
        else AList.delete (snd e) (this_respawnTokens s))"
  by (simp add: respawnUnoccupiedVehicle_defs split: option.splits)

lemma forcedRespawnEffects_cong:
  assumes "storedObjs s' = storedObjs s" "vehicleObjs s' = vehicleObjs s"
  shows "forcedRespawnEffects s' = forcedRespawnEffects s"
  by (rule ext) (simp add: forcedRespawnEffects_def assms split: option.splits)

lemma forced_respawns_frame:
  "this_vehicles (fold respawnUnoccupiedVehicle es s) = this_vehicles s"
  "this_storedVehicles (fold respawnUnoccupiedVehicle es s) = this_storedVehicles s"
  "nextVehicle (fold respawnUnoccupiedVehicle es s) = nextVehicle s"
  "nextSymbol (fold respawnUnoccupiedVehicle es s) = nextSymbol s"
  "storedObjs (fold respawnUnoccupiedVehicle es s) = storedObjs s"
  "vehicleObjs (fold respawnUnoccupiedVehicle es s) = vehicleObjs s"
  "timers (fold respawnUnoccupiedVehicle es s) = timers s"
  "this_pinned (fold respawnUnoccupiedVehicle es s) = this_pinned s"
  "this_disposed (fold respawnUnoccupiedVehicle es s) = this_disposed s"
  by (induction es arbitrary: s; simp add: respawnUnoccupiedVehicle_frame)+

lemma forced_respawns_effects:
  "effects (fold respawnUnoccupiedVehicle es s)
     = effects s @ concat (map (forcedRespawnEffects s) es)"
proof (induction es arbitrary: s)
  case Nil
  show ?case by simp
next
  case (Cons e es)
  have "forcedRespawnEffects (respawnUnoccupiedVehicle e s) = forcedRespawnEffects s"
    by (rule forcedRespawnEffects_cong) (simp_all add: respawnUnoccupiedVehicle_frame)
  with Cons.IH [of "respawnUnoccupiedVehicle e s"] show ?case
    by (simp add: respawnUnoccupiedVehicle_effects)
qed

lemma forced_respawns_tokens:
  "map_of (this_respawnTokens (fold respawnUnoccupiedVehicle es s)) w
     = (if w \<in> snd ` set es \<and> occupantCount (vehicleObjs s w) = 0 then None
        else map_of (this_respawnTokens s) w)"
proof (induction es arbitrary: s)
  case Nil
  show ?case by simp
next
  case (Cons e es)
  from Cons.IH [of "respawnUnoccupiedVehicle e s"] show ?case
    by (auto simp add: respawnUnoccupiedVehicle_frame respawnUnoccupiedVehicle_tokens
          delete_conv')
qed

text \<open>
  C10. \<^verbatim>\<open>respawnUnoccupiedVehicles\<close> touches only live vehicles without occupants: for
  each, in the order of the live map, the respawn token is deleted, the death hook of the
  descriptor is called when there is one, and the vehicle is respawned when it is connected.
  The pin table is not changed at all, so a descriptor pinned as recently used stays
  pinned. An occupied live vehicle keeps its token, causes no outside call, and its object
  is not changed; the maps, objects, timers and symbol counter stay as they were.
\<close>

theorem respawnUnoccupiedVehicles_spares_occupied_and_pins:
  "this_pinned (respawnUnoccupiedVehicles s) = this_pinned s
   \<and> (\<forall>sv. (sv, RecentUsagePin) \<in> this_pinned s \<longrightarrow>
         (sv, RecentUsagePin) \<in> this_pinned (respawnUnoccupiedVehicles s))
   \<and> effects (respawnUnoccupiedVehicles s)
       = effects s @ concat (map (forcedRespawnEffects s) (this_vehicles s))
   \<and> (\<forall>w. map_of (this_respawnTokens (respawnUnoccupiedVehicles s)) w
         = (if w \<in> snd ` set (this_vehicles s) \<and> occupantCount (vehicleObjs s w) = 0
            then None else map_of (this_respawnTokens s) w))
   \<and> (\<forall>sv w. (sv, w) \<in> set (this_vehicles s) \<and> 0 < occupantCount (vehicleObjs s w) \<longrightarrow>
         forcedRespawnEffects s (sv, w) = []
         \<and> map_of (this_respawnTokens (respawnUnoccupiedVehicles s)) w
             = map_of (this_respawnTokens s) w
         \<and> vehicleObjs (respawnUnoccupiedVehicles s) w = vehicleObjs s w)
   \<and> sameLiveMaps s (respawnUnoccupiedVehicles s)
   \<and> sameObjects s (respawnUnoccupiedVehicles s)
   \<and> timers (respawnUnoccupiedVehicles s) = timers s
   \<and> nextSymbol (respawnUnoccupiedVehicles s) = nextSymbol s"
  unfolding respawnUnoccupiedVehicles_def
  by (simp add: forced_respawns_frame forced_respawns_effects forced_respawns_tokens
        sameLiveMaps_def sameObjects_def forcedRespawnEffects_def)

lemma demo_scheduled_more:
  "this_vehicles (scheduleVehicleForRespawn demoWorld 0 0 1) = [(0, 0), (1, 1), (2, 2)]"
  "this_pinned (scheduleVehicleForRespawn demoWorld 0 0 1) = {(0, RecentUsagePin), (1, RecentUsagePin)}"
  "this_respawnTokens (scheduleVehicleForRespawn demoWorld 0 0 1) = [(0, 0)]"
  by (simp_all add: scheduleVehicleForRespawn_def demoWorld_def demoDescriptor_def
        demoVehicle_def Let_def)

theorem respawnUnoccupiedVehicles_spares_occupied_and_pins_witness:
  "map_of (this_respawnTokens (scheduleVehicleForRespawn demoWorld 0 0 1)) 0 = Some 0
   \<and> map_of (this_respawnTokens
        (respawnUnoccupiedVehicles (scheduleVehicleForRespawn demoWorld 0 0 1))) 0 = None
   \<and> effects (respawnUnoccupiedVehicles (scheduleVehicleForRespawn demoWorld 0 0 1))
       = [CallDeathFn 7 0 0, VehicleRespawn 0, CallDeathFn 7 1 1, VehicleRespawn 1]
   \<and> (0, RecentUsagePin)
       \<in> this_pinned (respawnUnoccupiedVehicles (scheduleVehicleForRespawn demoWorld 0 0 1))
   \<and> this_pinned (respawnUnoccupiedVehicles (scheduleVehicleForRespawn demoWorld 0 0 1))
       = {(0, RecentUsagePin), (1, RecentUsagePin)}"
proof -
  let ?s = "scheduleVehicleForRespawn demoWorld 0 0 1"
  have shown: "effects ?s @ concat (map (forcedRespawnEffects ?s) (this_vehicles ?s))
                 = [CallDeathFn 7 0 0, VehicleRespawn 0, CallDeathFn 7 1 1, VehicleRespawn 1]"
    by (simp add: forcedRespawnEffects_def demo_scheduled demo_scheduled_more demoVehicle_def
          demoDescriptor_def)
  have pinned: "(0, RecentUsagePin) \<in> this_pinned ?s"
    by (simp add: demo_scheduled_more)
  have unoccupied: "0 \<in> snd ` set (this_vehicles ?s) \<and> occupantCount (vehicleObjs ?s 0) = 0"
    by (simp add: demo_scheduled demo_scheduled_more demoVehicle_def)
  from respawnUnoccupiedVehicles_spares_occupied_and_pins [of ?s]
  have pins: "this_pinned (respawnUnoccupiedVehicles ?s) = this_pinned ?s"
    and logged: "effects (respawnUnoccupiedVehicles ?s)
       = effects ?s @ concat (map (forcedRespawnEffects ?s) (this_vehicles ?s))"
    and tokens: "map_of (this_respawnTokens (respawnUnoccupiedVehicles ?s)) 0
         = (if 0 \<in> snd ` set (this_vehicles ?s) \<and> occupantCount (vehicleObjs ?s 0) = 0
            then None else map_of (this_respawnTokens ?s) 0)"
    by blast+
  from logged shown
  have "effects (respawnUnoccupiedVehicles ?s)
          = [CallDeathFn 7 0 0, VehicleRespawn 0, CallDeathFn 7 1 1, VehicleRespawn 1]"
    by simp
  moreover from tokens unoccupied
  have "map_of (this_respawnTokens (respawnUnoccupiedVehicles ?s)) 0 = None"
    by simp
  moreover from pins
  have "this_pinned (respawnUnoccupiedVehicles ?s) = {(0, RecentUsagePin), (1, RecentUsagePin)}"
    by (simp add: demo_scheduled_more)
  ultimately show ?thesis
    using demo_scheduled(2) by simp
qed

section \<open>The drift sweep\<close>

lemma sweep_condition:
  "(\<not> isOccupied (vehicleObjs s v) \<and> map_of (this_respawnTokens s) v = None
    \<and> \<not> (closeTo (vehPosition (vehicleObjs s v)) (position (storedObjs s sv))
             UnoccupiedRespawnThreshold
           \<and> vehVirtualWorld (vehicleObjs s v) = virtualWorld (storedObjs s sv)
           \<and> vehInteriorId (vehicleObjs s v) = interiorId (storedObjs s sv)))
   = drifted s sv v"
  by (auto simp add: drifted_def isOccupied_def closeTo_def UnoccupiedRespawnThreshold_def)

lemma processUnoccupiedVehicle_drifted:
  "drifted s sv v \<Longrightarrow>
     processUnoccupiedVehicle (sv, v) s = scheduleVehicleForRespawn s v sv (1 / 2)"
  using sweep_condition [of s v sv]
  by (auto simp add: processUnoccupiedVehicle_def Let_def)

lemma processUnoccupiedVehicle_in_place:
  "\<not> drifted s sv v \<Longrightarrow> processUnoccupiedVehicle (sv, v) s = s"
  using sweep_condition [of s v sv]
  by (auto simp add: processUnoccupiedVehicle_def Let_def)

lemmas processUnoccupiedVehicle_defs =
  processUnoccupiedVehicle_def scheduleVehicleForRespawn_def unpin_def Let_def

lemma processUnoccupiedVehicle_frame:
  "this_vehicles (processUnoccupiedVehicle e s) = this_vehicles s"
  "this_storedVehicles (processUnoccupiedVehicle e s) = this_storedVehicles s"
  "nextVehicle (processUnoccupiedVehicle e s) = nextVehicle s"
  "storedObjs (processUnoccupiedVehicle e s) = storedObjs s"
  "vehicleObjs (processUnoccupiedVehicle e s) = vehicleObjs s"
  "effects (processUnoccupiedVehicle e s) = effects s"
  "this_disposed (processUnoccupiedVehicle e s) = this_disposed s"
  by (simp_all add: processUnoccupiedVehicle_defs)

lemma processUnoccupiedVehicle_nextSymbol:
  "nextSymbol s \<le> nextSymbol (processUnoccupiedVehicle e s)"
  by (simp add: processUnoccupiedVehicle_defs)

lemma processUnoccupiedVehicle_other_vehicle:
  assumes "w \<noteq> snd e"
  shows "map_of (this_respawnTokens (processUnoccupiedVehicle e s)) w
           = map_of (this_respawnTokens s) w"
    and "timersOf w (processUnoccupiedVehicle e s) = timersOf w s"
  using assms by (simp_all add: processUnoccupiedVehicle_defs update_conv' timersOf_def)

lemma processUnoccupiedVehicle_other_descriptor:
  assumes "sv \<noteq> fst e"
  shows "((sv, p) \<in> this_pinned (processUnoccupiedVehicle e s)) = ((sv, p) \<in> this_pinned s)"
  using assms by (simp add: processUnoccupiedVehicle_defs)

lemma sweep_frame:
  "this_vehicles (fold processUnoccupiedVehicle es s) = this_vehicles s"
  "this_storedVehicles (fold processUnoccupiedVehicle es s) = this_storedVehicles s"
  "nextVehicle (fold processUnoccupiedVehicle es s) = nextVehicle s"
  "storedObjs (fold processUnoccupiedVehicle es s) = storedObjs s"
  "vehicleObjs (fold processUnoccupiedVehicle es s) = vehicleObjs s"
  "effects (fold processUnoccupiedVehicle es s) = effects s"
  "this_disposed (fold processUnoccupiedVehicle es s) = this_disposed s"
  by (induction es arbitrary: s; simp add: processUnoccupiedVehicle_frame)+

lemma sweep_nextSymbol: "nextSymbol s \<le> nextSymbol (fold processUnoccupiedVehicle es s)"
proof (induction es arbitrary: s)
  case Nil
  show ?case by simp
next
  case (Cons e es)
  from Cons.IH [of "processUnoccupiedVehicle e s"] processUnoccupiedVehicle_nextSymbol [of s e]
  show ?case by simp
qed

lemma sweep_other_vehicle:
  assumes "w \<notin> snd ` set es"
  shows "map_of (this_respawnTokens (fold processUnoccupiedVehicle es s)) w
           = map_of (this_respawnTokens s) w
         \<and> timersOf w (fold processUnoccupiedVehicle es s) = timersOf w s"
  using assms
proof (induction es arbitrary: s)
  case Nil
  show ?case by simp
next
  case (Cons e es)
  then have "w \<noteq> snd e" and "w \<notin> snd ` set es" by auto
  with Cons.IH [of "processUnoccupiedVehicle e s"] show ?case
    by (simp add: processUnoccupiedVehicle_other_vehicle)
qed

lemma sweep_other_descriptor:
  assumes "sv \<notin> fst ` set es"
  shows "((sv, p) \<in> this_pinned (fold processUnoccupiedVehicle es s)) = ((sv, p) \<in> this_pinned s)"
  using assms
proof (induction es arbitrary: s)
  case Nil
  show ?case by simp
next
  case (Cons e es)
  then have "sv \<noteq> fst e" and "sv \<notin> fst ` set es" by auto
  with Cons.IH [of "processUnoccupiedVehicle e s"] show ?case
    by (simp add: processUnoccupiedVehicle_other_descriptor)
qed

lemma drifted_cong:
  assumes "storedObjs s' = storedObjs s" "vehicleObjs s' = vehicleObjs s"
    "map_of (this_respawnTokens s') v = map_of (this_respawnTokens s) v"
  shows "drifted s' sv v = drifted s sv v"
  by (simp add: drifted_def assms)

lemma respawnScheduled_widen:
  assumes "respawnScheduled s1 s2 v d"
    and "nextSymbol s \<le> nextSymbol s1" and "timersOf v s1 = timersOf v s"
    and "nextSymbol s2 \<le> nextSymbol s3" and "timersOf v s3 = timersOf v s2"
    and "map_of (this_respawnTokens s3) v = map_of (this_respawnTokens s2) v"
  shows "respawnScheduled s s3 v d"
  using assms by (auto simp add: respawnScheduled_def split: option.splits)

lemma sweep_entry:
  assumes keys: "distinct (map fst es)" and vals: "distinct (map snd es)"
    and entry: "(sv, v) \<in> set es"
  shows "(drifted s sv v \<and> 0 \<le> respawnDelay (storedObjs s sv) \<longrightarrow>
            respawnScheduled s (fold processUnoccupiedVehicle es s) v
              (real_of_int (respawnDelay (storedObjs s sv)) / 2)
            \<and> (\<forall>p. ((sv, p) \<in> this_pinned (fold processUnoccupiedVehicle es s))
                     = ((sv, p) \<in> this_pinned s)))
       \<and> (drifted s sv v \<and> respawnDelay (storedObjs s sv) < 0 \<longrightarrow>
            map_of (this_respawnTokens (fold processUnoccupiedVehicle es s)) v = None
            \<and> timersOf v (fold processUnoccupiedVehicle es s) = timersOf v s
            \<and> (\<forall>p. ((sv, p) \<in> this_pinned (fold processUnoccupiedVehicle es s))
                     = ((sv, p) \<in> this_pinned s \<and> p \<noteq> RecentUsagePin)))
       \<and> (\<not> drifted s sv v \<longrightarrow>
            map_of (this_respawnTokens (fold processUnoccupiedVehicle es s)) v
              = map_of (this_respawnTokens s) v
            \<and> timersOf v (fold processUnoccupiedVehicle es s) = timersOf v s
            \<and> (\<forall>p. ((sv, p) \<in> this_pinned (fold processUnoccupiedVehicle es s))
                     = ((sv, p) \<in> this_pinned s)))"
proof -
  from split_list [OF entry] obtain pre post where split: "es = pre @ (sv, v) # post"
    by blast
  define s1 where "s1 = fold processUnoccupiedVehicle pre s"
  define s2 where "s2 = processUnoccupiedVehicle (sv, v) s1"
  define s3 where "s3 = fold processUnoccupiedVehicle post s2"
  have s3: "fold processUnoccupiedVehicle es s = s3"
    by (simp add: split s1_def s2_def s3_def)
  from vals split have v_pre: "v \<notin> snd ` set pre" and v_post: "v \<notin> snd ` set post"
    by auto
  from keys split have sv_pre: "sv \<notin> fst ` set pre" and sv_post: "sv \<notin> fst ` set post"
    by auto
  note pre = sweep_other_vehicle [OF v_pre, of s, folded s1_def]
  note post = sweep_other_vehicle [OF v_post, of s2, folded s3_def]
  note pre_pin = sweep_other_descriptor [OF sv_pre, of _ s, folded s1_def]
  note post_pin = sweep_other_descriptor [OF sv_post, of _ s2, folded s3_def]
  have objs1: "storedObjs s1 = storedObjs s" "vehicleObjs s1 = vehicleObjs s"
    by (simp_all add: s1_def sweep_frame)
  have sym1: "nextSymbol s \<le> nextSymbol s1"
    unfolding s1_def by (rule sweep_nextSymbol)
  have sym3: "nextSymbol s2 \<le> nextSymbol s3"
    unfolding s3_def by (rule sweep_nextSymbol)
  have same: "drifted s1 sv v = drifted s sv v"
    by (rule drifted_cong) (simp_all add: objs1 pre)
  show ?thesis
  proof (cases "drifted s sv v")
    case False
    then have "s2 = s1"
      using same by (simp add: s2_def processUnoccupiedVehicle_in_place)
    with False show ?thesis
      by (simp add: s3 pre post pre_pin post_pin)
  next
    case True
    then have s2: "s2 = scheduleVehicleForRespawn s1 v sv (1 / 2)"
      using same by (simp add: s2_def processUnoccupiedVehicle_drifted)
    show ?thesis
    proof (cases "0 \<le> respawnDelay (storedObjs s sv)")
      case nonneg: True
      then have time: "0 \<le> real_of_int (respawnDelay (storedObjs s1 sv)) * (1 / 2)"
        by (simp add: objs1)
      have step: "respawnScheduled s1 s2 v (real_of_int (respawnDelay (storedObjs s sv)) / 2)"
        using scheduleVehicleForRespawn_scheduled [OF time, of v]
        by (simp add: s2 objs1)
      have "respawnScheduled s s3 v (real_of_int (respawnDelay (storedObjs s sv)) / 2)"
        by (rule respawnScheduled_widen [OF step sym1 _ sym3]) (simp_all add: pre post)
      moreover have "this_pinned s2 = this_pinned s1"
        by (simp add: s2 scheduleVehicleForRespawn_nonneg [OF time])
      ultimately show ?thesis
        using True nonneg by (simp add: s3 pre_pin post_pin)
    next
      case negative: False
      then have time: "real_of_int (respawnDelay (storedObjs s1 sv)) * (1 / 2) < 0"
        by (simp add: objs1)
      have eq: "s2 = s1\<lparr>this_pinned := this_pinned s1 - {(sv, RecentUsagePin)}\<rparr>"
        by (simp add: s2 scheduleVehicleForRespawn_neg [OF time])
      have tokens: "map_of (this_respawnTokens s2) v = map_of (this_respawnTokens s) v"
        by (simp add: eq pre)
      have "timersOf v s2 = timersOf v s1"
        by (simp add: eq timersOf_def)
      then have started: "timersOf v s2 = timersOf v s"
        by (simp add: pre)
      have none: "map_of (this_respawnTokens s) v = None"
        using True by (simp add: drifted_def)
      have pins: "\<And>p. ((sv, p) \<in> this_pinned s2) = ((sv, p) \<in> this_pinned s \<and> p \<noteq> RecentUsagePin)"
        using pre_pin by (auto simp add: eq)
      show ?thesis
        using True negative by (simp add: s3 post post_pin tokens started none pins)
    qed
  qed
qed

lemma distinct_values:
  assumes "distinct (map fst al)"
    and "\<And>k k' v. map_of al k = Some v \<Longrightarrow> map_of al k' = Some v \<Longrightarrow> k = k'"
  shows "distinct (map snd al)"
proof -
  have "inj_on snd (set al)"
  proof (rule inj_onI)
    fix a b assume a: "a \<in> set al" and b: "b \<in> set al" and eq: "snd a = snd b"
    have "map_of al (fst a) = Some (snd a)"
      using a assms(1) by simp
    moreover have "map_of al (fst b) = Some (snd b)"
      using b assms(1) by simp
    ultimately have "fst a = fst b" using eq assms(2) by metis
    with eq show "a = b" by (simp add: prod_eq_iff)
  qed
  moreover from assms(1) have "distinct al" by (simp add: distinct_map)
  ultimately show ?thesis by (simp add: distinct_map)
qed

lemma liveMapsOk_distinct_values:
  assumes "liveMapsOk s"
  shows "distinct (map snd (this_vehicles s))"
proof (rule distinct_values)
  show "distinct (map fst (this_vehicles s))"
    using assms by (simp add: liveMapsOk_def)
next
  fix k k' v
  assume "map_of (this_vehicles s) k = Some v" "map_of (this_vehicles s) k' = Some v"
  with assms show "k = k'"
    unfolding liveMapsOk_def mutualInverses_def by (metis option.inject)
qed


lemma sweep_result:
  "\<not> this_disposed s \<Longrightarrow>
     processUnoccupiedVehicleUpdates s
       = (Some 45, fold processUnoccupiedVehicle (this_vehicles s) s)"
  "this_disposed s \<Longrightarrow> processUnoccupiedVehicleUpdates s = (None, s)"
  by (simp_all add: processUnoccupiedVehicleUpdates_def UnoccupiedVehicleStatusUpdateSec_def)

text \<open>
  C3, amended. One turn of the drift sweep, on a streamer whose live maps are consistent
  and which is not disposed, awaits 45 seconds before the next turn and treats every live
  vehicle \<open>v\<close> of descriptor \<open>sv\<close> as follows. If \<open>v\<close> is unoccupied, has no respawn
  token, and stands more than 1.5 units from the descriptor's position or in another
  virtual world or interior, then: when the descriptor's \<open>respawnDelay\<close> is not negative,
  a respawn of \<open>v\<close> is scheduled after half the delay (multiplier 0.5) and the descriptor's
  pins stay; when the delay is the negative sentinel, nothing is scheduled for \<open>v\<close> (no
  token, no timer) and the descriptor loses its recent-usage pin. Every other live vehicle
  keeps its token, gets no timer, and its descriptor keeps its pins. The sweep changes
  neither the maps nor the objects and calls nothing outside; a disposed streamer ends the
  loop without a sweep.
\<close>

theorem drift_sweep_schedules_drifted_unless_never:
  assumes "liveMapsOk s" and "(sv, v) \<in> set (this_vehicles s)"
  shows "(this_disposed s \<longrightarrow> processUnoccupiedVehicleUpdates s = (None, s))
    \<and> (\<not> this_disposed s \<longrightarrow>
         fst (processUnoccupiedVehicleUpdates s) = Some 45
       \<and> (drifted s sv v \<and> 0 \<le> respawnDelay (storedObjs s sv) \<longrightarrow>
            respawnScheduled s (snd (processUnoccupiedVehicleUpdates s)) v
              (real_of_int (respawnDelay (storedObjs s sv)) / 2)
            \<and> (\<forall>p. ((sv, p) \<in> this_pinned (snd (processUnoccupiedVehicleUpdates s)))
                     = ((sv, p) \<in> this_pinned s)))
       \<and> (drifted s sv v \<and> respawnDelay (storedObjs s sv) < 0 \<longrightarrow>
            map_of (this_respawnTokens (snd (processUnoccupiedVehicleUpdates s))) v = None
            \<and> timersOf v (snd (processUnoccupiedVehicleUpdates s)) = timersOf v s
            \<and> (\<forall>p. ((sv, p) \<in> this_pinned (snd (processUnoccupiedVehicleUpdates s)))
                     = ((sv, p) \<in> this_pinned s \<and> p \<noteq> RecentUsagePin)))
       \<and> (\<not> drifted s sv v \<longrightarrow>
            map_of (this_respawnTokens (snd (processUnoccupiedVehicleUpdates s))) v
              = map_of (this_respawnTokens s) v
            \<and> timersOf v (snd (processUnoccupiedVehicleUpdates s)) = timersOf v s
            \<and> (\<forall>p. ((sv, p) \<in> this_pinned (snd (processUnoccupiedVehicleUpdates s)))
                     = ((sv, p) \<in> this_pinned s)))
       \<and> sameLiveMaps s (snd (processUnoccupiedVehicleUpdates s))
       \<and> sameObjects s (snd (processUnoccupiedVehicleUpdates s))
       \<and> effects (snd (processUnoccupiedVehicleUpdates s)) = effects s)"
proof (intro conjI impI)
  assume "this_disposed s"
  then show "processUnoccupiedVehicleUpdates s = (None, s)"
    by (rule sweep_result)
next
  assume running: "\<not> this_disposed s"
  note result = sweep_result(1) [OF running]
  have keys: "distinct (map fst (this_vehicles s))"
    using assms(1) by (simp add: liveMapsOk_def)
  have vals: "distinct (map snd (this_vehicles s))"
    using assms(1) by (rule liveMapsOk_distinct_values)
  note entry = sweep_entry [OF keys vals assms(2), of s, folded result [THEN arg_cong, of snd, simplified]]
  show "fst (processUnoccupiedVehicleUpdates s) = Some 45"
    by (simp add: result)
  show "sameLiveMaps s (snd (processUnoccupiedVehicleUpdates s))"
    "sameObjects s (snd (processUnoccupiedVehicleUpdates s))"
    "effects (snd (processUnoccupiedVehicleUpdates s)) = effects s"
    by (simp_all add: result sameLiveMaps_def sameObjects_def sweep_frame)
  {
    assume "drifted s sv v \<and> 0 \<le> respawnDelay (storedObjs s sv)"
    with entry show "respawnScheduled s (snd (processUnoccupiedVehicleUpdates s)) v
              (real_of_int (respawnDelay (storedObjs s sv)) / 2)"
      and "\<forall>p. ((sv, p) \<in> this_pinned (snd (processUnoccupiedVehicleUpdates s)))
                     = ((sv, p) \<in> this_pinned s)"
      by blast+
  }
  {
    assume "drifted s sv v \<and> respawnDelay (storedObjs s sv) < 0"
    with entry show "map_of (this_respawnTokens (snd (processUnoccupiedVehicleUpdates s))) v = None"
      and "timersOf v (snd (processUnoccupiedVehicleUpdates s)) = timersOf v s"
      and "\<forall>p. ((sv, p) \<in> this_pinned (snd (processUnoccupiedVehicleUpdates s)))
                     = ((sv, p) \<in> this_pinned s \<and> p \<noteq> RecentUsagePin)"
      by blast+
  }
  {
    assume "\<not> drifted s sv v"
    with entry show "map_of (this_respawnTokens (snd (processUnoccupiedVehicleUpdates s))) v
              = map_of (this_respawnTokens s) v"
      and "timersOf v (snd (processUnoccupiedVehicleUpdates s)) = timersOf v s"
      and "\<forall>p. ((sv, p) \<in> this_pinned (snd (processUnoccupiedVehicleUpdates s)))
                     = ((sv, p) \<in> this_pinned s)"
      by blast+
  }
qed

lemma distanceTo_x_axis: "distanceTo (Vector a 0 0) (Vector 0 0 0) = \<bar>a\<bar>"
  by (simp add: distanceTo_def)

lemma demoWorld_ok: "liveMapsOk demoWorld"
  by (auto simp add: liveMapsOk_def mutualInverses_def demoWorld_def split: if_splits)

lemma demoWorld_drift:
  "drifted demoWorld 0 0" "drifted demoWorld 1 1" "\<not> drifted demoWorld 2 2"
  by (simp_all add: drifted_def demoWorld_def demoVehicle_def demoDescriptor_def
        distanceTo_x_axis)

lemma demoWorld_facts:
  "\<not> this_disposed demoWorld"
  "(0, 0) \<in> set (this_vehicles demoWorld)"
  "(1, 1) \<in> set (this_vehicles demoWorld)"
  "(2, 2) \<in> set (this_vehicles demoWorld)"
  "respawnDelay (storedObjs demoWorld 0) = 30"
  "respawnDelay (storedObjs demoWorld 1) = - 1"
  "(1, RecentUsagePin) \<in> this_pinned demoWorld"
  "map_of (this_respawnTokens demoWorld) 2 = None"
  "timersOf 1 demoWorld = []"
  by (simp_all add: demoWorld_def demoDescriptor_def timersOf_def)

theorem drift_sweep_schedules_drifted_unless_never_witness:
  "fst (processUnoccupiedVehicleUpdates demoWorld) = Some 45
   \<and> respawnScheduled demoWorld (snd (processUnoccupiedVehicleUpdates demoWorld)) 0 15
   \<and> map_of (this_respawnTokens (snd (processUnoccupiedVehicleUpdates demoWorld))) 1 = None
   \<and> (1, RecentUsagePin) \<notin> this_pinned (snd (processUnoccupiedVehicleUpdates demoWorld))
   \<and> map_of (this_respawnTokens (snd (processUnoccupiedVehicleUpdates demoWorld))) 2 = None"
proof -
  have first: "drifted demoWorld 0 0 \<and> 0 \<le> respawnDelay (storedObjs demoWorld 0)"
    and second: "drifted demoWorld 1 1 \<and> respawnDelay (storedObjs demoWorld 1) < 0"
    using demoWorld_drift demoWorld_facts by simp_all
  from drift_sweep_schedules_drifted_unless_never [OF demoWorld_ok demoWorld_facts(2)]
    demoWorld_facts(1) first
  have "fst (processUnoccupiedVehicleUpdates demoWorld) = Some 45"
    and "respawnScheduled demoWorld (snd (processUnoccupiedVehicleUpdates demoWorld)) 0
           (real_of_int (respawnDelay (storedObjs demoWorld 0)) / 2)"
    by blast+
  moreover
  from drift_sweep_schedules_drifted_unless_never [OF demoWorld_ok demoWorld_facts(3)]
    demoWorld_facts(1) second
  have "map_of (this_respawnTokens (snd (processUnoccupiedVehicleUpdates demoWorld))) 1 = None"
    and "\<forall>p. ((1, p) \<in> this_pinned (snd (processUnoccupiedVehicleUpdates demoWorld)))
              = ((1, p) \<in> this_pinned demoWorld \<and> p \<noteq> RecentUsagePin)"
    by blast+
  moreover
  from drift_sweep_schedules_drifted_unless_never [OF demoWorld_ok demoWorld_facts(4)]
    demoWorld_facts(1) demoWorld_drift(3)
  have "map_of (this_respawnTokens (snd (processUnoccupiedVehicleUpdates demoWorld))) 2
          = map_of (this_respawnTokens demoWorld) 2"
    by blast
  ultimately show ?thesis
    using demoWorld_facts by simp
qed

text \<open>
  C3 as stated fails for a descriptor with the sentinel delay: live vehicle 1 is
  unoccupied, has no token and stands in another virtual world, yet the sweep schedules no
  respawn for it (no timer is started), and it is not left untouched either: its
  descriptor loses the recent-usage pin.
\<close>

theorem drift_sweep_never_counterexample:
  "\<not> this_disposed demoWorld
   \<and> (1, 1) \<in> set (this_vehicles demoWorld)
   \<and> drifted demoWorld 1 1
   \<and> \<not> respawnScheduled demoWorld (snd (processUnoccupiedVehicleUpdates demoWorld)) 1
         (real_of_int (respawnDelay (storedObjs demoWorld 1)) / 2)
   \<and> timersOf 1 (snd (processUnoccupiedVehicleUpdates demoWorld)) = []
   \<and> (1, RecentUsagePin) \<in> this_pinned demoWorld
   \<and> (1, RecentUsagePin) \<notin> this_pinned (snd (processUnoccupiedVehicleUpdates demoWorld))"
proof -
  have keys: "distinct (map fst (this_vehicles demoWorld))"
    and vals: "distinct (map snd (this_vehicles demoWorld))"
    by (simp_all add: demoWorld_def)
  have never: "drifted demoWorld 1 1 \<and> respawnDelay (storedObjs demoWorld 1) < 0"
    using demoWorld_drift demoWorld_facts by simp
  have swept: "snd (processUnoccupiedVehicleUpdates demoWorld)
                 = fold processUnoccupiedVehicle (this_vehicles demoWorld) demoWorld"
    by (simp add: sweep_result demoWorld_facts)
  from sweep_entry [OF keys vals demoWorld_facts(3), of demoWorld] never
  have "map_of (this_respawnTokens (snd (processUnoccupiedVehicleUpdates demoWorld))) 1 = None"
    and "timersOf 1 (snd (processUnoccupiedVehicleUpdates demoWorld)) = timersOf 1 demoWorld"
    and "\<forall>p. ((1, p) \<in> this_pinned (snd (processUnoccupiedVehicleUpdates demoWorld)))
              = ((1, p) \<in> this_pinned demoWorld \<and> p \<noteq> RecentUsagePin)"
    unfolding swept by blast+
  then show ?thesis
    using demoWorld_facts demoWorld_drift by (simp add: respawnScheduled_def)
qed

section \<open>The query\<close>

lemma closest_none:
  assumes "\<forall>v \<in> set vs. d < distanceTo (vehPosition (vehicleObjs s v)) pos"
  shows "fold (closer s pos) vs (c, d) = (c, d)"
  using assms by (induction vs) (simp_all add: closer_def)

lemma closest_some:
  assumes "\<exists>v \<in> set vs. distanceTo (vehPosition (vehicleObjs s v)) pos \<le> d"
  shows "\<exists>w \<in> set vs.
           fold (closer s pos) vs (c, d)
             = (Some w, distanceTo (vehPosition (vehicleObjs s w)) pos)
           \<and> (\<forall>v \<in> set vs. distanceTo (vehPosition (vehicleObjs s w)) pos
                               \<le> distanceTo (vehPosition (vehicleObjs s v)) pos)"
  using assms
proof (induction vs arbitrary: c d)
  case Nil
  then show ?case by simp
next
  case (Cons v vs)
  let ?far = "\<lambda>v. distanceTo (vehPosition (vehicleObjs s v)) pos"
  show ?case
  proof (cases "d < ?far v")
    case True
    then have step: "closer s pos v (c, d) = (c, d)"
      by (simp add: closer_def)
    from True Cons.prems obtain u where u: "u \<in> set vs" "?far u \<le> d" by auto
    then have "\<exists>v \<in> set vs. ?far v \<le> d" by blast
    from Cons.IH [OF this, of c] obtain w where w: "w \<in> set vs"
      "fold (closer s pos) vs (c, d) = (Some w, ?far w)" "\<forall>v \<in> set vs. ?far w \<le> ?far v"
      by blast
    from w(3) u have "?far w \<le> d" by force
    with True have "?far w \<le> ?far v" by simp
    with w show ?thesis by (auto simp add: step)
  next
    case False
    then have step: "closer s pos v (c, d) = (Some v, ?far v)"
      by (simp add: closer_def)
    show ?thesis
    proof (cases "\<exists>u \<in> set vs. ?far u \<le> ?far v")
      case True
      from Cons.IH [OF this, of "Some v"] obtain w where w: "w \<in> set vs"
        "fold (closer s pos) vs (Some v, ?far v) = (Some w, ?far w)"
        "\<forall>v \<in> set vs. ?far w \<le> ?far v"
        by blast
      from True w(3) have "?far w \<le> ?far v" by force
      with w show ?thesis by (auto simp add: step)
    next
      case none: False
      then have far: "\<forall>u \<in> set vs. ?far v < ?far u" by auto
      from closest_none [OF this, of "Some v"]
      have "fold (closer s pos) vs (Some v, ?far v) = (Some v, ?far v)" .
      with far show ?thesis by (auto simp add: step intro: less_imp_le)
    qed
  qed
qed

lemma insert_fold:
  "distinct acc \<Longrightarrow>
     distinct (fold (\<lambda>x ms. List.insert (f x) ms) xs acc)
     \<and> set (fold (\<lambda>x ms. List.insert (f x) ms) xs acc) = set acc \<union> f ` set xs"
  by (induction xs arbitrary: acc) auto

lemma query_counts:
  "vehicles (query s pos)
     = card {sv \<in> set (registered s).
               distanceTo (position (storedObjs s sv)) pos \<le> streamingDistance s}"
  "models (query s pos)
     = card ((\<lambda>sv. modelId (storedObjs s sv))
               ` {sv \<in> set (registered s).
                    distanceTo (position (storedObjs s sv)) pos \<le> streamingDistance s})"
proof -
  let ?near = "{sv \<in> set (registered s).
                  distanceTo (position (storedObjs s sv)) pos \<le> streamingDistance s}"
  have near: "set (super_query s pos) = ?near" and once: "distinct (super_query s pos)"
    by (auto simp add: super_query_def)
  from once have "length (super_query s pos) = card ?near"
    by (simp add: distinct_card [symmetric] near)
  then show "vehicles (query s pos) = card ?near"
    by (simp add: query_def Let_def)
  from insert_fold [of "[]" "\<lambda>sv. modelId (storedObjs s sv)" "super_query s pos"]
  have "length (fold (\<lambda>sv ms. List.insert (modelId (storedObjs s sv)) ms) (super_query s pos) [])
          = card ((\<lambda>sv. modelId (storedObjs s sv)) ` ?near)"
    by (simp add: distinct_card [symmetric] near)
  then show "models (query s pos) = card ((\<lambda>sv. modelId (storedObjs s sv)) ` ?near)"
    by (simp add: query_def Let_def)
qed

lemma query_closest_within_bound:
  assumes "\<exists>v \<in> set (map snd (this_vehicles s)).
             distanceTo (vehPosition (vehicleObjs s v)) pos \<le> MAX_SAFE_INTEGER"
  shows "\<exists>w \<in> set (map snd (this_vehicles s)).
           closestVehicle (query s pos) = Some w
           \<and> (\<forall>v \<in> set (map snd (this_vehicles s)).
                 distanceTo (vehPosition (vehicleObjs s w)) pos
                   \<le> distanceTo (vehPosition (vehicleObjs s v)) pos)"
proof -
  from closest_some [OF assms, of None] obtain w
    where "w \<in> set (map snd (this_vehicles s))"
      and "fold (closer s pos) (map snd (this_vehicles s)) (None, MAX_SAFE_INTEGER)
             = (Some w, distanceTo (vehPosition (vehicleObjs s w)) pos)"
      and "\<forall>v \<in> set (map snd (this_vehicles s)).
             distanceTo (vehPosition (vehicleObjs s w)) pos
               \<le> distanceTo (vehPosition (vehicleObjs s v)) pos"
    by blast
  then show ?thesis
    by (intro bexI [of _ w]) (simp_all add: query_def Let_def)
qed

lemma query_closest_beyond_bound:
  assumes "\<forall>v \<in> set (map snd (this_vehicles s)).
             MAX_SAFE_INTEGER < distanceTo (vehPosition (vehicleObjs s v)) pos"
  shows "closestVehicle (query s pos) = None"
  using closest_none [OF assms, of None] by (simp add: query_def Let_def)

text \<open>
  C9. The two counts are as claimed (\<open>query_counts\<close>), and both distances compared in
  the loop come from \<^verbatim>\<open>distanceTo\<close>: when some live vehicle is within
  \<^verbatim>\<open>Number.MAX_SAFE_INTEGER\<close> units the result is a live vehicle at minimal distance
  (\<open>query_closest_within_bound\<close>). But the search starts from that bound, not from
  infinity: a streamer whose only live vehicle stands \<open>10\<^sup>1\<^sup>6\<close> units away answers
  \<^verbatim>\<open>closestVehicle: null\<close> although a vehicle is live.
\<close>

theorem query_misses_far_vehicle:
  "map snd (this_vehicles farWorld) = [0]
   \<and> distanceTo (vehPosition (vehicleObjs farWorld 0)) (Vector 0 0 0) = 10000000000000000
   \<and> query farWorld (Vector 0 0 0) = \<lparr>vehicles = 3, models = 1, closestVehicle = None\<rparr>"
  by (simp add: query_def super_query_def closer_def farWorld_def demoWorld_def
        demoVehicle_def demoDescriptor_def distanceTo_x_axis MAX_SAFE_INTEGER_def Let_def)


section \<open>Every reachable state keeps the bookkeeping invariant\<close>

text \<open>
  The hypothesis \<open>liveMapsOk\<close> of the sweep theorem holds in every state a constructed
  streamer can reach, whatever is called and whatever happens outside.
\<close>

lemma sameLiveMaps_refl: "sameLiveMaps s s"
  by (simp add: sameLiveMaps_def)

lemma sameLiveMaps_trans: "sameLiveMaps a b \<Longrightarrow> sameLiveMaps b c \<Longrightarrow> sameLiveMaps a c"
  by (simp add: sameLiveMaps_def)

lemma liveMapsOk_same: "sameLiveMaps s s' \<Longrightarrow> liveMapsOk s \<Longrightarrow> liveMapsOk s'"
  by (simp add: sameLiveMaps_def liveMapsOk_def mutualInverses_def)

lemma sameLiveMaps_scheduleVehicleForRespawn:
  "sameLiveMaps s (scheduleVehicleForRespawn s v sv m)"
  by (simp add: sameLiveMaps_def scheduleVehicleForRespawn_def unpin_def Let_def)

lemma sameLiveMaps_resumed:
  assumes "scheduleVehicleForRespawn_resumed fuel s v token = Some s'"
  shows "sameLiveMaps s s'"
proof (cases "\<not> connected (vehicleObjs s v) \<or> map_of (this_respawnTokens s) v \<noteq> Some token")
  case True
  with assms have "s' = s" by (simp add: scheduleVehicleForRespawn_resumed_def)
  then show ?thesis by (simp add: sameLiveMaps_refl)
next
  case False
  with assms have "respawnChain fuel s (Some v) = Some s'"
    by (simp add: scheduleVehicleForRespawn_resumed_def)
  then show ?thesis
    by (rule respawnChain_preorder [of sameLiveMaps, rotated 3])
       (auto intro: sameLiveMaps_refl sameLiveMaps_trans
          simp add: sameLiveMaps_def respawnLink_frame)
qed

lemma transition_sameLiveMaps:
  assumes "transition s s'"
  shows "sameLiveMaps s s'
         \<or> (\<exists>sv. s' = snd (createEntity s sv)) \<or> (\<exists>sv. s' = snd (deleteEntity s sv))
         \<or> s' = dispose s
         \<or> (\<exists>so vo ps rs n. nextVehicle s \<le> n
               \<and> s' = s\<lparr>storedObjs := so, vehicleObjs := vo, players := ps, registered := rs,
                         nextVehicle := n\<rparr>)"
  using assms
proof cases
  case (t_createEntity storedVehicle)
  then show ?thesis by blast
next
  case (t_deleteEntity storedVehicle)
  then show ?thesis by blast
next
  case (t_pin storedVehicle type)
  then show ?thesis by (simp add: sameLiveMaps_def pin_def)
next
  case (t_unpin storedVehicle type)
  then show ?thesis by (simp add: sameLiveMaps_def unpin_def)
next
  case (t_synchronizeAccessForVehicle storedVehicle)
  then show ?thesis by (simp add: sameLiveMaps_def synchronizeAccessForVehicle_frame)
next
  case (t_synchronizeAccessForPlayer p)
  then show ?thesis by (simp add: sameLiveMaps_def synchronizeAccessForPlayer_frame)
next
  case (t_scheduleVehicleForRespawn v storedVehicle timeMultipler)
  then show ?thesis by (simp add: sameLiveMaps_scheduleVehicleForRespawn)
next
  case (t_resumed fuel v token)
  then show ?thesis by (simp add: sameLiveMaps_resumed)
next
  case t_processUnoccupiedVehicleUpdates
  then show ?thesis
    by (simp add: sameLiveMaps_def processUnoccupiedVehicleUpdates_def sweep_frame)
next
  case t_respawnUnoccupiedVehicles
  then show ?thesis
    by (simp add: sameLiveMaps_def respawnUnoccupiedVehicles_def forced_respawns_frame)
next
  case (t_onPlayerEnterVehicle v)
  then show ?thesis
    by (simp add: sameLiveMaps_def onPlayerEnterVehicle_def pin_def split: option.splits)
next
  case (t_onPlayerLeaveVehicle v)
  then show ?thesis
    by (simp add: onPlayerLeaveVehicle_def sameLiveMaps_refl
          sameLiveMaps_scheduleVehicleForRespawn split: option.splits)
next
  case (t_onTrailerDetached v trailerVehicle)
  then show ?thesis
    by (simp add: onTrailerDetached_def onPlayerLeaveVehicle_def sameLiveMaps_refl
          sameLiveMaps_scheduleVehicleForRespawn split: option.splits)
next
  case (t_onVehicleSpawn v)
  then show ?thesis
    by (simp add: sameLiveMaps_def onVehicleSpawn_def Let_def emit_def split: option.splits)
next
  case (t_onVehicleDeath v)
  then show ?thesis
    by (simp add: onVehicleDeath_def sameLiveMaps_refl
          sameLiveMaps_scheduleVehicleForRespawn split: option.splits)
next
  case t_dispose
  then show ?thesis by simp
next
  case (t_outside n so vo ps rs)
  then show ?thesis by blast
qed

lemma transition_liveMapsOk:
  assumes "transition s s'" and ok: "liveMapsOk s"
  shows "liveMapsOk s'"
proof -
  from transition_sameLiveMaps [OF assms(1)]
  consider "sameLiveMaps s s'"
    | sv where "s' = snd (createEntity s sv)"
    | sv where "s' = snd (deleteEntity s sv)"
    | "s' = dispose s"
    | so vo ps rs n where "nextVehicle s \<le> n"
        "s' = s\<lparr>storedObjs := so, vehicleObjs := vo, players := ps, registered := rs,
                 nextVehicle := n\<rparr>"
    by blast
  then show ?thesis
  proof cases
    case 1
    then show ?thesis using ok by (rule liveMapsOk_same)
  next
    case 2
    then show ?thesis using ok by (simp add: liveMapsOk_createEntity)
  next
    case 3
    then show ?thesis using ok by (simp add: liveMapsOk_deleteEntity)
  next
    case 4
    then show ?thesis
      by (simp add: liveMapsOk_def mutualInverses_def dispose_def emit_def)
  next
    case 5
    then show ?thesis using ok
      by (auto simp add: liveMapsOk_def mutualInverses_def)
  qed
qed

lemma reachable_liveMapsOk:
  assumes "reachable s"
  shows "liveMapsOk s"
proof -
  from assms obtain s0 where start: "constructed s0" and run: "rtranclp transition s0 s"
    by (auto simp add: reachable_def)
  from run show ?thesis
  proof (induction rule: rtranclp_induct)
    case base
    from start show ?case by (rule liveMapsOk_constructed)
  next
    case (step y z)
    then show ?case using transition_liveMapsOk by blast
  qed
qed

end
